theory Spec2Isabelle
  imports Main "HOL-Library.Char_ord" "HOL-Library.List_Lexorder"
begin

section \<open>Strings and bytes\<close>

text \<open>
  A row of a table is a \<^typ>\<open>string\<close>: the characters before its terminating zero byte.
  \<open>c_str\<close> is the C string in a list of bytes: what stands before the first zero byte.
\<close>

definition NUL :: char where
  "NUL = CHR 0x00"

definition c_str :: "string \<Rightarrow> string" where
  "c_str buf = takeWhile (\<lambda>c. c \<noteq> NUL) buf"

text \<open>A \<^verbatim>\<open>char\<close> read as \<^verbatim>\<open>unsigned char\<close> and promoted to \<^verbatim>\<open>int\<close>.\<close>

definition uchar :: "char \<Rightarrow> int" where
  "uchar c = int (of_char c)"

text \<open>
  \<^verbatim>\<open>strcmp\<close> of the C library on two strings given by their bytes, the end of a list
  standing for the terminating zero byte: both strings are walked while the bytes agree
  and are not zero; the result is the difference of the first pair of bytes that differ,
  taken as \<^verbatim>\<open>unsigned char\<close>. ISO C fixes the sign of the result only, and the linter
  reads the sign only. This form compares the rows of a table with each other.
\<close>

fun strcmp :: "string \<Rightarrow> string \<Rightarrow> int" where
  "strcmp [] [] = 0"
| "strcmp [] (r # rs) = 0 - uchar r"
| "strcmp (l # ls) [] = uchar l - 0"
| "strcmp (l # ls) (r # rs) =
     (if l = r \<and> l \<noteq> NUL then strcmp ls rs else uchar l - uchar r)"

section \<open>The caller's memory\<close>

text \<open>
  The three arguments of the linter are pointers into the caller's memory, and nothing
  keeps them apart: \<^verbatim>\<open>data\<close> is not \<^verbatim>\<open>restrict\<close>, and a \<^verbatim>\<open>char\<close> pointer may point into
  the bytes of a \<^verbatim>\<open>size_t\<close> object. So the memory is one array of bytes, a pointer is an
  address in it (\<open>None\<close> is \<^verbatim>\<open>NULL\<close>), the input string is read from the memory, and a store
  through an out-parameter can change the input string. The tables are \<^verbatim>\<open>static const\<close>
  and not part of this memory.
\<close>

type_synonym addr = nat

type_synonym heap = "addr \<Rightarrow> char"

text \<open>
  \<^verbatim>\<open>size_t\<close> values are natural numbers. The linter computes the bounds \<open>s\<close> and \<open>e\<close>, the
  midpoint \<open>s + (e - s) / 2\<close> and \<open>m + 1\<close> only while \<open>s < e\<close>, so every one of them lies
  between 0 and the number of table rows (249 and 180) and no operation wraps around; the
  other \<^verbatim>\<open>size_t\<close> value is the length of the input string. In memory a \<^verbatim>\<open>size_t\<close> is
  an object of 8 bytes, least significant byte first (the LP64 little-endian layout), so
  a store keeps a value modulo \<open>2 ^ 64\<close>.
\<close>

type_synonym size_t = nat

definition sizeof_size_t :: nat where
  "sizeof_size_t = 8"

primrec le_bytes :: "nat \<Rightarrow> nat \<Rightarrow> char list" where
  "le_bytes 0 v = []"
| "le_bytes (Suc n) v = char_of v # le_bytes n (v div 256)"

primrec le_value :: "char list \<Rightarrow> nat" where
  "le_value [] = 0"
| "le_value (b # bs) = of_char b + 256 * le_value bs"

definition size_t_bytes :: "size_t \<Rightarrow> char list" where
  "size_t_bytes v = le_bytes sizeof_size_t v"

text \<open>\<open>poke a bs h\<close> is the memory \<open>h\<close> with the bytes \<open>bs\<close> written from address \<open>a\<close> on.\<close>

definition poke :: "addr \<Rightarrow> char list \<Rightarrow> heap \<Rightarrow> heap" where
  "poke a bs h = (\<lambda>x. if a \<le> x \<and> x < a + length bs then bs ! (x - a) else h x)"

text \<open>The value of the \<^verbatim>\<open>size_t\<close> object at an address, as the caller reads it back.\<close>

definition load_size_t :: "heap \<Rightarrow> addr \<Rightarrow> size_t" where
  "load_size_t h a = le_value (map h [a..<a + sizeof_size_t])"

text \<open>A store through \<^verbatim>\<open>NULL\<close> and a failed \<^verbatim>\<open>assert\<close> are faults, not results.\<close>

datatype fault = Assertion_failed | Null_dereference

fun store_size_t :: "addr option \<Rightarrow> size_t \<Rightarrow> heap \<Rightarrow> fault + heap" where
  "store_size_t None v h = Inl Null_dereference"
| "store_size_t (Some a) v h = Inr (poke a (size_t_bytes v) h)"

text \<open>
  \<open>c_string_at h a s\<close>: at address \<open>a\<close> the memory \<open>h\<close> holds the null-terminated string
  \<open>s\<close>, that is the characters of \<open>s\<close>, none of them zero, and then a zero byte.
\<close>

definition c_string_at :: "heap \<Rightarrow> addr \<Rightarrow> string \<Rightarrow> bool" where
  "c_string_at h a s \<longleftrightarrow>
     map h [a..<a + length s] = s \<and> NUL \<notin> set s \<and> h (a + length s) = NUL"

text \<open>
  \<^verbatim>\<open>strcmp(row, cc)\<close> for a table row and a pointer \<open>cc\<close> into the memory: the same walk
  as \<open>strcmp\<close>, the second string read byte by byte from the memory. It ends at the
  latest at the zero byte that ends the row.
\<close>

fun strcmp_at :: "string \<Rightarrow> heap \<Rightarrow> addr \<Rightarrow> int" where
  "strcmp_at [] h a = 0 - uchar (h a)"
| "strcmp_at (l # ls) h a =
     (if l = h a \<and> l \<noteq> NUL then strcmp_at ls h (a + 1) else uchar l - uchar (h a))"

text \<open>
  \<^verbatim>\<open>strlen\<close> of the C library: the bytes are counted up to the first zero byte. In a
  memory with no zero byte from \<open>a\<close> on the count never ends, which is the value \<open>None\<close>.
\<close>

partial_function (option) strlen_loop :: "heap \<Rightarrow> addr \<Rightarrow> size_t \<Rightarrow> size_t option" where
  "strlen_loop h a n = (if h a = NUL then Some n else strlen_loop h (a + 1) (n + 1))"

declare strlen_loop.simps [code]

definition strlen_at :: "heap \<Rightarrow> addr \<Rightarrow> size_t option" where
  "strlen_at h a = strlen_loop h a 0"

text \<open>
  A memory for examples: the string \<open>s\<close> stands at address \<open>a\<close> and every other byte is
  zero, as when a test passes a string literal.
\<close>

definition literal_at :: "addr \<Rightarrow> string \<Rightarrow> heap" where
  "literal_at a s = poke a s (\<lambda>x. NUL)"

section \<open>Result codes\<close>

text \<open>
  Modelled from the spec: the header \<^verbatim>\<open>gs1syntaxdictionary.h\<close> that declares
  \<^verbatim>\<open>gs1_lint_err_t\<close> is not among the sources. The type holds the outcomes the two
  linters return: success, and one "not in the list" code for each list.
\<close>

datatype gs1_lint_err_t = GS1_LINTER_OK | GS1_LINTER_NOT_ISO3166 | GS1_LINTER_NOT_ISO4217

section \<open>The tables and the lookup\<close>

text \<open>
  \<^verbatim>\<open>static const char iso3166[][4]\<close> of \<^verbatim>\<open>lint_iso3166.c\<close>: each row is three characters
  and the terminating zero byte.
\<close>

definition iso3166 :: "string list" where
  "iso3166 = [
     ''004'', ''008'', ''010'', ''012'', ''016'', ''020'', ''024'', ''028'', ''031'', ''032'', ''036'', ''040'', ''044'', ''048'',
     ''050'', ''051'', ''052'', ''056'', ''060'', ''064'', ''068'', ''070'', ''072'', ''074'', ''076'', ''084'', ''086'', ''090'', ''092'', ''096'',
     ''100'', ''104'', ''108'', ''112'', ''116'', ''120'', ''124'', ''132'', ''136'', ''140'', ''144'', ''148'',
     ''152'', ''156'', ''158'', ''162'', ''166'', ''170'', ''174'', ''175'', ''178'', ''180'', ''184'', ''188'', ''191'', ''192'', ''196'',
     ''203'', ''204'', ''208'', ''212'', ''214'', ''218'', ''222'', ''226'', ''231'', ''232'', ''233'', ''234'', ''238'', ''239'', ''242'', ''246'', ''248'',
     ''250'', ''254'', ''258'', ''260'', ''262'', ''266'', ''268'', ''270'', ''275'', ''276'', ''288'', ''292'', ''296'',
     ''300'', ''304'', ''308'', ''312'', ''316'', ''320'', ''324'', ''328'', ''332'', ''334'', ''336'', ''340'', ''344'', ''348'',
     ''352'', ''356'', ''360'', ''364'', ''368'', ''372'', ''376'', ''380'', ''384'', ''388'', ''392'', ''398'',
     ''400'', ''404'', ''408'', ''410'', ''414'', ''417'', ''418'', ''422'', ''426'', ''428'', ''430'', ''434'', ''438'', ''440'', ''442'', ''446'',
     ''450'', ''454'', ''458'', ''462'', ''466'', ''470'', ''474'', ''478'', ''480'', ''484'', ''492'', ''496'', ''498'', ''499'',
     ''500'', ''504'', ''508'', ''512'', ''516'', ''520'', ''524'', ''528'', ''531'', ''533'', ''534'', ''535'', ''540'', ''548'',
     ''554'', ''558'', ''562'', ''566'', ''570'', ''574'', ''578'', ''580'', ''581'', ''583'', ''584'', ''585'', ''586'', ''591'', ''598'',
     ''600'', ''604'', ''608'', ''612'', ''616'', ''620'', ''624'', ''626'', ''630'', ''634'', ''638'', ''642'', ''643'', ''646'',
     ''652'', ''654'', ''659'', ''660'', ''662'', ''663'', ''666'', ''670'', ''674'', ''678'', ''682'', ''686'', ''688'', ''690'', ''694'',
     ''702'', ''703'', ''704'', ''705'', ''706'', ''710'', ''716'', ''724'', ''728'', ''729'', ''732'', ''740'', ''744'', ''748'',
     ''752'', ''756'', ''760'', ''762'', ''764'', ''768'', ''772'', ''776'', ''780'', ''784'', ''788'', ''792'', ''795'', ''796'', ''798'',
     ''800'', ''804'', ''807'', ''818'', ''826'', ''831'', ''832'', ''833'', ''834'', ''840'',
     ''850'', ''854'', ''858'', ''860'', ''862'', ''876'', ''882'', ''887'', ''894''
   ]"

text \<open>\<^verbatim>\<open>static const char iso4217[][4]\<close> of \<^verbatim>\<open>lint_iso4217.c\<close>.\<close>

definition iso4217 :: "string list" where
  "iso4217 = [
     ''008'', ''012'', ''032'', ''036'', ''044'', ''048'',
     ''050'', ''051'', ''052'', ''060'', ''064'', ''068'', ''072'', ''084'', ''090'', ''096'',
     ''104'', ''108'', ''116'', ''124'', ''132'', ''136'', ''144'',
     ''152'', ''156'', ''170'', ''174'', ''188'', ''191'', ''192'',
     ''203'', ''208'', ''214'', ''222'', ''230'', ''232'', ''238'', ''242'', ''262'', ''270'', ''292'',
     ''320'', ''324'', ''328'', ''332'', ''340'', ''344'', ''348'',
     ''352'', ''356'', ''360'', ''364'', ''368'', ''376'', ''388'', ''392'', ''398'',
     ''400'', ''404'', ''408'', ''410'', ''414'', ''417'', ''418'',
     ''422'', ''426'', ''430'', ''434'', ''446'',
     ''454'', ''458'', ''462'', ''480'', ''484'', ''496'', ''498'',
     ''504'', ''512'', ''516'', ''524'', ''532'', ''533'', ''548'',
     ''554'', ''558'', ''566'', ''578'', ''586'', ''590'', ''598'',
     ''600'', ''604'', ''608'', ''634'', ''643'', ''646'', ''654'', ''682'', ''690'', ''694'',
     ''702'', ''704'', ''706'', ''710'', ''728'', ''748'',
     ''752'', ''756'', ''760'', ''764'', ''776'', ''780'', ''784'', ''788'',
     ''800'', ''807'', ''818'', ''826'', ''834'', ''840'', ''858'', ''860'', ''882'', ''886'',
     ''901'', ''925'', ''927'', ''928'', ''929'', ''930'', ''931'', ''932'', ''933'', ''934'', ''936'', ''938'',
     ''940'', ''941'', ''943'', ''944'', ''946'', ''947'', ''948'', ''949'',
     ''950'', ''951'', ''952'', ''953'', ''955'', ''956'', ''957'', ''958'', ''959'',
     ''960'', ''961'', ''962'', ''963'', ''964'', ''965'', ''967'', ''968'', ''969'',
     ''970'', ''971'', ''972'', ''973'', ''975'', ''976'', ''977'', ''978'', ''979'',
     ''980'', ''981'', ''984'', ''985'', ''986'', ''990'', ''994'', ''997'', ''999''
   ]"

text \<open>
  The \<^verbatim>\<open>while\<close> loop of the macros \<^verbatim>\<open>GS1_LINTER_ISO3166_LOOKUP\<close> and
  \<^verbatim>\<open>GS1_LINTER_ISO4217_LOOKUP\<close>, which differ in the table only. Its state is the locals
  \<open>s\<close> and \<open>e\<close> and the variable \<open>valid\<close> of the enclosing function; \<open>cc\<close> is the pointer
  the macro is given and \<open>h\<close> the memory it reads the input from. The result is the value
  of \<open>valid\<close> when the loop is left; \<open>None\<close> stands for a loop that is never left.
\<close>

partial_function (option) lookup_while ::
  "string list \<Rightarrow> heap \<Rightarrow> addr \<Rightarrow> size_t \<Rightarrow> size_t \<Rightarrow> int \<Rightarrow> int option" where
  "lookup_while tbl h cc s e valid =
     (if s < e then
        (let m = s + (e - s) div 2;
             cmp = strcmp_at (tbl ! m) h cc
         in if cmp < 0 then lookup_while tbl h cc (m + 1) e valid
            else if cmp > 0 then lookup_while tbl h cc s m valid
            else Some 1)
      else Some valid)"

declare lookup_while.simps [code]

text \<open>
  The macro body: \<open>s = 0\<close>, \<open>e = sizeof(table) / sizeof(table[0])\<close>, then the loop.
\<close>

definition binary_search_lookup ::
  "string list \<Rightarrow> heap \<Rightarrow> addr \<Rightarrow> int \<Rightarrow> int option" where
  "binary_search_lookup tbl h cc valid = lookup_while tbl h cc 0 (length tbl) valid"

definition GS1_LINTER_ISO3166_LOOKUP :: "heap \<Rightarrow> addr \<Rightarrow> int \<Rightarrow> int option" where
  "GS1_LINTER_ISO3166_LOOKUP h cc valid = binary_search_lookup iso3166 h cc valid"

definition GS1_LINTER_ISO4217_LOOKUP :: "heap \<Rightarrow> addr \<Rightarrow> int \<Rightarrow> int option" where
  "GS1_LINTER_ISO4217_LOOKUP h cc valid = binary_search_lookup iso4217 h cc valid"

section \<open>The linter\<close>

text \<open>
  The function body that \<^verbatim>\<open>lint_iso3166.c\<close> and \<^verbatim>\<open>lint_iso4217.c\<close> share. What the
  preprocessor decides is a parameter: \<open>LOOKUP\<close> is the macro that the body expands (the
  built-in binary search, or the one a \<^verbatim>\<open>GS1_LINTER_CUSTOM_ISO3166_LOOKUP\<close> header
  supplies), which reads the memory and may assign to \<open>valid\<close>; \<open>not_in_list\<close> is the error
  code of the list. The statements run in the order of the source: the store through
  \<open>err_pos\<close> comes first, and \<^verbatim>\<open>strlen(data)\<close> is evaluated after it, in the memory that
  store has left, and only when \<open>err_len\<close> is not \<^verbatim>\<open>NULL\<close>.
\<close>

definition gs1_lint_code_list ::
  "(heap \<Rightarrow> addr \<Rightarrow> int \<Rightarrow> int option) \<Rightarrow> gs1_lint_err_t \<Rightarrow>
   addr option \<Rightarrow> addr option \<Rightarrow> addr option \<Rightarrow> heap \<Rightarrow>
   (fault + gs1_lint_err_t \<times> heap) option" where
  "gs1_lint_code_list LOOKUP not_in_list data err_pos err_len h =
     (let valid = 0 in
      case data of
        None \<Rightarrow> Some (Inl Assertion_failed)
      | Some d \<Rightarrow>
          (case LOOKUP h d valid of
             None \<Rightarrow> None
           | Some valid \<Rightarrow>
               if valid \<noteq> 0 then Some (Inr (GS1_LINTER_OK, h))
               else
                 (case (if err_pos \<noteq> None then store_size_t err_pos 0 h else Inr h) of
                    Inl f \<Rightarrow> Some (Inl f)
                  | Inr h1 \<Rightarrow>
                      if err_len \<noteq> None then
                        (case strlen_at h1 d of
                           None \<Rightarrow> None
                         | Some n \<Rightarrow>
                             (case store_size_t err_len n h1 of
                                Inl f \<Rightarrow> Some (Inl f)
                              | Inr h2 \<Rightarrow> Some (Inr (not_in_list, h2))))
                      else Some (Inr (not_in_list, h1)))))"

definition gs1_lint_iso3166 ::
  "addr option \<Rightarrow> addr option \<Rightarrow> addr option \<Rightarrow> heap \<Rightarrow>
   (fault + gs1_lint_err_t \<times> heap) option" where
  "gs1_lint_iso3166 data err_pos err_len h =
     gs1_lint_code_list GS1_LINTER_ISO3166_LOOKUP GS1_LINTER_NOT_ISO3166 data err_pos err_len h"

definition gs1_lint_iso4217 ::
  "addr option \<Rightarrow> addr option \<Rightarrow> addr option \<Rightarrow> heap \<Rightarrow>
   (fault + gs1_lint_err_t \<times> heap) option" where
  "gs1_lint_iso4217 data err_pos err_len h =
     gs1_lint_code_list GS1_LINTER_ISO4217_LOOKUP GS1_LINTER_NOT_ISO4217 data err_pos err_len h"

section \<open>A reference lookup\<close>

text \<open>
  The naive membership test that the specification compares the binary search with: a
  scan of the table from its first row, which sets \<open>valid\<close> to 1 at the first row equal to
  the input. It follows the specification's words, not the source.
\<close>

fun reference_scan :: "string list \<Rightarrow> heap \<Rightarrow> addr \<Rightarrow> int \<Rightarrow> int" where
  "reference_scan [] h cc valid = valid"
| "reference_scan (row # rows) h cc valid =
     (if strcmp_at row h cc = 0 then 1 else reference_scan rows h cc valid)"

definition reference_lookup :: "string list \<Rightarrow> heap \<Rightarrow> addr \<Rightarrow> int \<Rightarrow> int option" where
  "reference_lookup tbl h cc valid = Some (reference_scan tbl h cc valid)"

section \<open>What \<open>strcmp\<close> computes\<close>

lemma uchar_nonneg: "0 \<le> uchar c"
  by (simp add: uchar_def)

lemma uchar_not_neg: "\<not> uchar a < 0"
  using uchar_nonneg [of a] by linarith

lemma uchar_NUL: "uchar NUL = 0"
  by (simp add: uchar_def NUL_def)

lemma uchar_eq_iff: "uchar a = uchar b \<longleftrightarrow> a = b"
  by (simp add: uchar_def)

lemma uchar_eq_0_iff: "uchar a = 0 \<longleftrightarrow> a = NUL"
  using uchar_eq_iff [of a NUL] by (simp add: uchar_NUL)

lemma uchar_pos_iff: "0 < uchar a \<longleftrightarrow> a \<noteq> NUL"
  using uchar_eq_0_iff [of a] uchar_nonneg [of a] by linarith

lemma uchar_less_iff: "uchar a < uchar b \<longleftrightarrow> a < b"
  by (simp add: uchar_def less_char_def)

lemma c_str_Nil: "c_str [] = []"
  by (simp add: c_str_def)

lemma c_str_Cons: "c_str (c # cs) = (if c = NUL then [] else c # c_str cs)"
  by (simp add: c_str_def)

lemma c_str_id: "NUL \<notin> set x \<Longrightarrow> c_str x = x"
  by (induction x) (auto simp: c_str_def)

text \<open>
  The sign of \<open>strcmp\<close> is the lexicographic order of the two C strings, bytes compared as
  unsigned values.
\<close>

lemma strcmp_less_iff: "strcmp a b < 0 \<longleftrightarrow> c_str a < c_str b"
  by (induction a b rule: strcmp.induct)
     (auto simp: c_str_Nil c_str_Cons uchar_eq_0_iff uchar_NUL uchar_less_iff uchar_eq_iff
        uchar_pos_iff uchar_not_neg)

lemma strcmp_eq_iff: "strcmp a b = 0 \<longleftrightarrow> c_str a = c_str b"
  by (induction a b rule: strcmp.induct)
     (auto simp: c_str_Nil c_str_Cons uchar_eq_0_iff uchar_NUL uchar_eq_iff)

lemma strcmp_greater_iff: "0 < strcmp a b \<longleftrightarrow> c_str b < c_str a"
  using strcmp_less_iff [of a b] strcmp_eq_iff [of a b] by auto

lemma strcmp_trans: "strcmp a b < 0 \<Longrightarrow> strcmp b c < 0 \<Longrightarrow> strcmp a c < 0"
  by (simp add: strcmp_less_iff)

lemma strcmp_less_trans_greater: "0 < strcmp b c \<Longrightarrow> strcmp b a < 0 \<Longrightarrow> 0 < strcmp a c"
  by (simp add: strcmp_less_iff strcmp_greater_iff)

lemma transp_strcmp_less: "transp (\<lambda>a b. strcmp a b < 0)"
  by (rule transpI) (rule strcmp_trans)

section \<open>Strings in the memory\<close>

lemma upt_head: "[a..<a + Suc k] = a # [Suc a..<Suc a + k]"
  by (subst upt_rec) simp

lemma c_string_at_Nil: "c_string_at h a [] \<longleftrightarrow> h a = NUL"
  by (simp add: c_string_at_def)

lemma c_string_at_Cons:
  "c_string_at h a (c # cs) \<longleftrightarrow> h a = c \<and> c \<noteq> NUL \<and> c_string_at h (Suc a) cs"
  using upt_head [of a "length cs"] by (auto simp: c_string_at_def simp del: upt_Suc)

lemma c_string_at_nth: "c_string_at h a s \<Longrightarrow> i < length s \<Longrightarrow> h (a + i) = s ! i"
proof (induction s arbitrary: a i)
  case Nil
  then show ?case by simp
next
  case (Cons c cs)
  show ?case
  proof (cases i)
    case 0
    with Cons.prems show ?thesis by (simp add: c_string_at_Cons)
  next
    case (Suc j)
    with Cons.prems have "h (Suc a + j) = cs ! j"
      by (intro Cons.IH) (simp_all add: c_string_at_Cons)
    with Suc show ?thesis by simp
  qed
qed

lemma c_string_at_end: "c_string_at h a s \<Longrightarrow> h (a + length s) = NUL"
  by (simp add: c_string_at_def)

lemma c_string_at_no_NUL: "c_string_at h a s \<Longrightarrow> NUL \<notin> set s"
  by (simp add: c_string_at_def)

lemma c_string_at_cong:
  assumes "c_string_at h a s" "\<forall>x. a \<le> x \<and> x \<le> a + length s \<longrightarrow> g x = h x"
  shows "c_string_at g a s"
proof -
  have "map g [a..<a + length s] = map h [a..<a + length s]"
    using assms(2) by (intro map_cong) auto
  also have "\<dots> = s"
    using assms(1) by (simp add: c_string_at_def)
  finally have "map g [a..<a + length s] = s" .
  moreover have "g (a + length s) = NUL"
    using assms by (simp add: c_string_at_def)
  ultimately show ?thesis
    using assms(1) by (simp add: c_string_at_def)
qed

text \<open>
  When the memory holds a null-terminated string at \<open>a\<close>, comparing a row with the memory
  at \<open>a\<close> is comparing the row with that string.
\<close>

lemma strcmp_at_c_string: "c_string_at h a s \<Longrightarrow> strcmp_at row h a = strcmp row s"
proof (induction row arbitrary: a s)
  case Nil
  then show ?case
    by (cases s) (auto simp: c_string_at_Nil c_string_at_Cons uchar_NUL)
next
  case (Cons l ls)
  show ?case
  proof (cases s)
    case Nil
    with Cons.prems show ?thesis
      by (auto simp: c_string_at_Nil uchar_NUL)
  next
    case (Cons r rs)
    with Cons.prems have "h a = r" "r \<noteq> NUL" "c_string_at h (Suc a) rs"
      by (simp_all add: c_string_at_Cons)
    with Cons.IH [of "Suc a" rs] Cons show ?thesis by auto
  qed
qed

text \<open>
  In any memory, comparing a row with the memory at \<open>a\<close> is comparing it with the list of
  the bytes from \<open>a\<close> on, taken long enough to reach the end of the row.
\<close>

lemma strcmp_at_bytes: "length row < n \<Longrightarrow> strcmp_at row h a = strcmp row (map h [a..<a + n])"
proof (induction row arbitrary: a n)
  case Nil
  then obtain k where k: "n = Suc k" by (cases n) auto
  have "map h [a..<a + n] = h a # map h [Suc a..<Suc a + k]"
    unfolding k upt_head by simp
  then show ?case by simp
next
  case (Cons l ls)
  then obtain k where k: "n = Suc k" "length ls < k" by (cases n) auto
  define B where "B = map h [Suc a..<Suc a + k]"
  have "map h [a..<a + n] = h a # B"
    unfolding k(1) upt_head B_def by simp
  moreover have "strcmp_at ls h (Suc a) = strcmp ls B"
    unfolding B_def by (rule Cons.IH [OF k(2)])
  ultimately show ?case by auto
qed

text \<open>The count of \<open>strlen\<close> ends at the first zero byte.\<close>

lemma strlen_loop_first_NUL:
  "h (a + k) = NUL \<Longrightarrow> \<forall>i<k. h (a + i) \<noteq> NUL \<Longrightarrow> strlen_loop h a n = Some (n + k)"
proof (induction k arbitrary: a n)
  case 0
  then show ?case by (subst strlen_loop.simps) simp
next
  case (Suc k)
  have "h a \<noteq> NUL" using Suc.prems(2) [rule_format, of 0] by simp
  moreover have "strlen_loop h (a + 1) (n + 1) = Some (n + 1 + k)"
  proof (rule Suc.IH)
    show "h (a + 1 + k) = NUL" using Suc.prems(1) by simp
    show "\<forall>i<k. h (a + 1 + i) \<noteq> NUL"
      using Suc.prems(2) by (auto dest: spec [of _ "Suc _"])
  qed
  ultimately show ?case by (subst strlen_loop.simps) simp
qed

lemma strlen_at_c_string: "c_string_at h a s \<Longrightarrow> strlen_at h a = Some (length s)"
proof -
  assume s: "c_string_at h a s"
  have "\<forall>i<length s. h (a + i) \<noteq> NUL"
    using c_string_at_nth [OF s] c_string_at_no_NUL [OF s] by (metis nth_mem)
  then show ?thesis
    using strlen_loop_first_NUL [of h a "length s" 0] c_string_at_end [OF s]
    by (simp add: strlen_at_def)
qed

lemma strlen_at_returns: "h (a + k) = NUL \<Longrightarrow> \<exists>n\<le>k. strlen_at h a = Some n"
proof -
  assume z: "h (a + k) = NUL"
  define j where "j = (LEAST i. h (a + i) = NUL)"
  have j: "h (a + j) = NUL" unfolding j_def using z by (rule LeastI)
  have "j \<le> k" unfolding j_def using z by (rule Least_le)
  moreover have "\<forall>i<j. h (a + i) \<noteq> NUL"
    unfolding j_def by (auto dest: not_less_Least)
  then have "strlen_at h a = Some j"
    using strlen_loop_first_NUL [of h a j 0] j by (simp add: strlen_at_def)
  ultimately show ?thesis by blast
qed

section \<open>Stores of a \<open>size_t\<close>\<close>

lemma length_le_bytes: "length (le_bytes n v) = n"
  by (induction n arbitrary: v) simp_all

lemma length_size_t_bytes: "length (size_t_bytes v) = sizeof_size_t"
  by (simp add: size_t_bytes_def length_le_bytes)

lemma le_bytes_0: "le_bytes n 0 = replicate n NUL"
  by (induction n) (simp_all add: NUL_def char_of_def)

lemma size_t_bytes_0: "size_t_bytes 0 = replicate sizeof_size_t NUL"
  by (simp add: size_t_bytes_def le_bytes_0)

lemma le_value_le_bytes: "le_value (le_bytes n v) = v mod 256 ^ n"
proof (induction n arbitrary: v)
  case 0
  show ?case by simp
next
  case (Suc n)
  have "v mod (256 * 256 ^ n) = 256 * (v div 256 mod 256 ^ n) + v mod 256"
    by (rule mod_mult2_eq)
  with Suc show ?case by simp
qed

lemma poke_inside: "a \<le> x \<Longrightarrow> x < a + length bs \<Longrightarrow> poke a bs h x = bs ! (x - a)"
  by (simp add: poke_def)

lemma poke_outside: "x < a \<or> a + length bs \<le> x \<Longrightarrow> poke a bs h x = h x"
  by (auto simp: poke_def)

lemma map_poke_same: "map (poke a bs h) [a..<a + length bs] = bs"
  by (rule nth_equalityI) (simp_all add: poke_def)

lemma load_store_same:
  "load_size_t (poke a (size_t_bytes v) h) a = v mod 2 ^ 64"
proof -
  have "map (poke a (size_t_bytes v) h) [a..<a + sizeof_size_t] = size_t_bytes v"
    using map_poke_same [of a "size_t_bytes v" h] by (simp add: length_size_t_bytes)
  then have "load_size_t (poke a (size_t_bytes v) h) a = v mod 256 ^ sizeof_size_t"
    by (simp add: load_size_t_def size_t_bytes_def le_value_le_bytes)
  also have "(256::nat) ^ sizeof_size_t = 2 ^ 64"
    by (simp add: sizeof_size_t_def)
  finally show ?thesis .
qed

lemma load_store_other:
  assumes "p + sizeof_size_t \<le> l \<or> l + sizeof_size_t \<le> p"
  shows "load_size_t (poke l (size_t_bytes v) h) p = load_size_t h p"
proof -
  have "map (poke l (size_t_bytes v) h) [p..<p + sizeof_size_t] = map h [p..<p + sizeof_size_t]"
    using assms by (intro map_cong) (auto simp: poke_def length_size_t_bytes)
  then show ?thesis unfolding load_size_t_def by (rule arg_cong)
qed

text \<open>
  A store of 0 writes zero bytes only: a string in the memory keeps its end or ends
  earlier, and it stays as it is when none of its characters lies in the object stored to.
\<close>

lemma poke_zeros: "poke p (size_t_bytes 0) h x = NUL \<or> poke p (size_t_bytes 0) h x = h x"
  by (auto simp: poke_def size_t_bytes_0)

lemma strlen_at_after_zero_store:
  assumes "c_string_at h d s"
  shows "\<exists>n\<le>length s. strlen_at (poke p (size_t_bytes 0) h) d = Some n"
proof (rule strlen_at_returns)
  show "poke p (size_t_bytes 0) h (d + length s) = NUL"
    using poke_zeros [of p h "d + length s"] c_string_at_end [OF assms] by auto
qed

lemma c_string_at_poke_apart:
  assumes "c_string_at h d s" "s = [] \<or> p + length bs \<le> d \<or> d + length s \<le> p"
    "set bs \<subseteq> {NUL}"
  shows "c_string_at (poke p bs h) d s"
proof (cases "s = []")
  case True
  have "poke p bs h d = NUL \<or> poke p bs h d = h d"
  proof (cases "p \<le> d \<and> d < p + length bs")
    case True
    then have "bs ! (d - p) \<in> set bs" by (intro nth_mem) auto
    with assms(3) have "bs ! (d - p) = NUL" by auto
    with True show ?thesis by (simp add: poke_def)
  next
    case False
    then show ?thesis by (auto simp: poke_def)
  qed
  with True assms(1) show ?thesis by (auto simp: c_string_at_Nil)
next
  case False
  with assms(2) consider "p + length bs \<le> d" | "d + length s \<le> p" by blast
  then show ?thesis
  proof cases
    case 1
    then show ?thesis
      using assms(1) by (intro c_string_at_cong [OF assms(1)]) (auto simp: poke_def)
  next
    case 2
    have "map (poke p bs h) [d..<d + length s] = map h [d..<d + length s]"
      using 2 by (intro map_cong) (auto simp: poke_def)
    also have "\<dots> = s"
      using assms(1) by (simp add: c_string_at_def)
    finally have "map (poke p bs h) [d..<d + length s] = s" .
    moreover have "poke p bs h (d + length s) = NUL"
    proof (cases "p \<le> d + length s \<and> d + length s < p + length bs")
      case True
      then have "poke p bs h (d + length s) = bs ! (d + length s - p)"
        by (simp add: poke_def)
      moreover have "bs ! (d + length s - p) \<in> set bs"
        using True by (intro nth_mem) auto
      ultimately show ?thesis using assms(3) by auto
    next
      case False
      then show ?thesis
        using c_string_at_end [OF assms(1)] by (auto simp: poke_def)
    qed
    ultimately show ?thesis
      using assms(1) by (simp add: c_string_at_def)
  qed
qed

lemma c_string_at_zero_store_apart:
  assumes "c_string_at h d s" "s = [] \<or> p + sizeof_size_t \<le> d \<or> d + length s \<le> p"
  shows "c_string_at (poke p (size_t_bytes 0) h) d s"
  using assms
  by (intro c_string_at_poke_apart) (auto simp: length_size_t_bytes size_t_bytes_0)

section \<open>The loop\<close>

text \<open>The loop is left from every state: the distance \<open>e - s\<close> shrinks with each round.\<close>

lemma lookup_while_returns: "\<exists>v. lookup_while tbl h cc s e valid = Some v"
proof (induction "e - s" arbitrary: s e rule: less_induct)
  case less
  show ?case
  proof (cases "s < e")
    case False
    then show ?thesis by (subst lookup_while.simps) simp
  next
    case True
    define m where "m = s + (e - s) div 2"
    have m: "s \<le> m" "m < e" using True by (simp_all add: m_def)
    have up: "\<exists>v. lookup_while tbl h cc (m + 1) e valid = Some v"
      using less [of e "m + 1"] m by simp
    have down: "\<exists>v. lookup_while tbl h cc s m valid = Some v"
      using less [of m s] m by simp
    show ?thesis
      using up down True
      by (subst lookup_while.simps) (simp add: Let_def m_def [symmetric])
  qed
qed

text \<open>
  On a table in strictly ascending order the loop keeps every row below \<open>s\<close> smaller than
  the input and every row from \<open>e\<close> on greater, so it finds the input exactly when a row
  equals it. The rows read are rows of the table: \<open>m < e \<le> length tbl\<close>. Here \<open>B\<close> is a
  list of the bytes of the input that every row is compared with.
\<close>

lemma lookup_while_sorted:
  assumes sorted: "sorted_wrt (\<lambda>a b. strcmp a b < 0) tbl"
    and bytes: "\<forall>x\<in>set tbl. strcmp_at x h cc = strcmp x B"
  shows "e \<le> length tbl \<Longrightarrow>
         (\<forall>i<s. strcmp (tbl ! i) B < 0) \<Longrightarrow>
         (\<forall>i. e \<le> i \<and> i < length tbl \<longrightarrow> 0 < strcmp (tbl ! i) B) \<Longrightarrow>
         lookup_while tbl h cc s e valid =
           Some (if \<exists>x\<in>set tbl. strcmp x B = 0 then 1 else valid)"
proof (induction "e - s" arbitrary: s e rule: less_induct)
  case less
  note le = less.prems(1) and below = less.prems(2) and above = less.prems(3)
  have nth_less: "strcmp (tbl ! i) (tbl ! j) < 0" if "i < j" "j < length tbl" for i j
    using sorted that by (simp add: sorted_wrt_iff_nth_less)
  show ?case
  proof (cases "s < e")
    case False
    have "strcmp x B \<noteq> 0" if "x \<in> set tbl" for x
    proof -
      from that obtain i where i: "i < length tbl" "x = tbl ! i"
        by (auto simp: in_set_conv_nth)
      show ?thesis
      proof (cases "i < s")
        case True
        then show ?thesis using below i by auto
      next
        case False
        with \<open>\<not> s < e\<close> have "e \<le> i" by simp
        then show ?thesis using above i by auto
      qed
    qed
    then have "\<not> (\<exists>x\<in>set tbl. strcmp x B = 0)" by blast
    then show ?thesis using False by (subst lookup_while.simps) simp
  next
    case True
    define m where "m = s + (e - s) div 2"
    have m: "s \<le> m" "m < e" using True by (simp_all add: m_def)
    then have m_len: "m < length tbl" using le by simp
    then have at_m: "strcmp_at (tbl ! m) h cc = strcmp (tbl ! m) B"
      using bytes by simp
    consider (lt) "strcmp (tbl ! m) B < 0" | (gt) "0 < strcmp (tbl ! m) B"
      | (eq) "strcmp (tbl ! m) B = 0" by linarith
    then show ?thesis
    proof cases
      case lt
      have "\<forall>i<m + 1. strcmp (tbl ! i) B < 0"
      proof (intro allI impI)
        fix i assume "i < m + 1"
        then consider "i = m" | "i < m" by linarith
        then show "strcmp (tbl ! i) B < 0"
          using lt nth_less [of i m] m_len by cases (auto intro: strcmp_trans)
      qed
      then have "lookup_while tbl h cc (m + 1) e valid =
                 Some (if \<exists>x\<in>set tbl. strcmp x B = 0 then 1 else valid)"
        using less.hyps [of e "m + 1"] m le above by simp
      then show ?thesis
        using lt True at_m
        by (subst lookup_while.simps) (simp add: Let_def m_def [symmetric])
    next
      case gt
      have "\<forall>i. m \<le> i \<and> i < length tbl \<longrightarrow> 0 < strcmp (tbl ! i) B"
      proof (intro allI impI)
        fix i assume "m \<le> i \<and> i < length tbl"
        then consider "i = m" | "m < i" "i < length tbl" by linarith
        then show "0 < strcmp (tbl ! i) B"
          using gt nth_less [of m i] by cases (auto intro: strcmp_less_trans_greater)
      qed
      then have "lookup_while tbl h cc s m valid =
                 Some (if \<exists>x\<in>set tbl. strcmp x B = 0 then 1 else valid)"
        using less.hyps [of m s] m m_len below by simp
      then show ?thesis
        using gt True at_m
        by (subst lookup_while.simps) (simp add: Let_def m_def [symmetric])
    next
      case eq
      have "tbl ! m \<in> set tbl" using m_len by simp
      then have "\<exists>x\<in>set tbl. strcmp x B = 0" using eq by blast
      then show ?thesis
        using eq True at_m
        by (subst lookup_while.simps) (simp add: Let_def m_def [symmetric])
    qed
  qed
qed

lemma binary_search_lookup_sorted:
  assumes "sorted_wrt (\<lambda>a b. strcmp a b < 0) tbl"
  shows "binary_search_lookup tbl h cc valid =
           Some (if \<exists>x\<in>set tbl. strcmp_at x h cc = 0 then 1 else valid)"
proof -
  define n where "n = Suc (sum_list (map length tbl))"
  define B where "B = map h [cc..<cc + n]"
  have bytes: "\<forall>x\<in>set tbl. strcmp_at x h cc = strcmp x B"
  proof
    fix x assume "x \<in> set tbl"
    then have "length x \<le> sum_list (map length tbl)"
      by (induction tbl) auto
    then have "length x < n" by (simp add: n_def)
    then show "strcmp_at x h cc = strcmp x B"
      unfolding B_def by (rule strcmp_at_bytes)
  qed
  have "lookup_while tbl h cc 0 (length tbl) valid =
          Some (if \<exists>x\<in>set tbl. strcmp x B = 0 then 1 else valid)"
    by (rule lookup_while_sorted [OF assms bytes]) simp_all
  moreover have "(\<exists>x\<in>set tbl. strcmp x B = 0) \<longleftrightarrow> (\<exists>x\<in>set tbl. strcmp_at x h cc = 0)"
    using bytes by auto
  ultimately show ?thesis
    by (simp add: binary_search_lookup_def)
qed

lemma reference_scan_eq:
  "reference_scan tbl h cc valid = (if \<exists>x\<in>set tbl. strcmp_at x h cc = 0 then 1 else valid)"
  by (induction tbl) simp_all

lemma reference_lookup_eq_binary_search:
  "sorted_wrt (\<lambda>a b. strcmp a b < 0) tbl \<Longrightarrow> binary_search_lookup tbl = reference_lookup tbl"
  by (intro ext) (simp add: binary_search_lookup_sorted reference_lookup_def reference_scan_eq)

section \<open>The two tables\<close>

lemma iso3166_successively: "successively (\<lambda>a b. strcmp a b < 0) iso3166"
  by (simp add: iso3166_def uchar_def NUL_def)

lemma iso3166_sorted: "sorted_wrt (\<lambda>a b. strcmp a b < 0) iso3166"
  using iso3166_successively
  by (simp add: successively_conv_sorted_wrt [OF transp_strcmp_less])

lemma iso3166_rows: "list_all (\<lambda>row. length row = 3 \<and> NUL \<notin> set row) iso3166"
  by (simp add: iso3166_def NUL_def)

lemma iso3166_digits: "list_all (\<lambda>row. set row \<subseteq> set ''0123456789'') iso3166"
  by (simp add: iso3166_def)

lemma iso3166_length: "length iso3166 = 249"
  by (simp add: iso3166_def)

lemma iso3166_row_c_str: "x \<in> set iso3166 \<Longrightarrow> c_str x = x"
  using iso3166_rows by (auto simp: list_all_iff intro: c_str_id)

lemma iso3166_member_iff:
  assumes "c_string_at h d s"
  shows "(\<exists>x\<in>set iso3166. strcmp_at x h d = 0) \<longleftrightarrow> s \<in> set iso3166"
proof -
  have "c_str s = s"
    using c_string_at_no_NUL [OF assms] by (rule c_str_id)
  then show ?thesis
    using iso3166_row_c_str by (auto simp: strcmp_at_c_string [OF assms] strcmp_eq_iff)
qed

lemma iso4217_successively: "successively (\<lambda>a b. strcmp a b < 0) iso4217"
  by (simp add: iso4217_def uchar_def NUL_def)

lemma iso4217_sorted: "sorted_wrt (\<lambda>a b. strcmp a b < 0) iso4217"
  using iso4217_successively
  by (simp add: successively_conv_sorted_wrt [OF transp_strcmp_less])

lemma table3_sorted: "sorted_wrt (\<lambda>a b. strcmp a b < 0) [''008'', ''012'', ''032'']"
  by (simp add: uchar_def NUL_def)

lemma table3_member_iff:
  assumes "c_string_at h d s"
  shows "(\<exists>x\<in>set [''008'', ''012'', ''032'']. strcmp_at x h d = 0) \<longleftrightarrow>
         s \<in> set [''008'', ''012'', ''032'']"
proof -
  have "c_str s = s"
    using c_string_at_no_NUL [OF assms] by (rule c_str_id)
  moreover have "c_str x = x" if "x \<in> set [''008'', ''012'', ''032'']" for x
    using that by (auto simp: c_str_def NUL_def)
  ultimately show ?thesis
    by (auto simp: strcmp_at_c_string [OF assms] strcmp_eq_iff)
qed

lemma not_rows:
  "'''' \<notin> set iso3166" "''0080'' \<notin> set iso3166" "''AAA'' \<notin> set iso3166"
  "''005'' \<notin> set iso3166"
  by (simp_all add: iso3166_def)

section \<open>Memories that hold a string literal\<close>

lemma literal_at_c_string: "NUL \<notin> set s \<Longrightarrow> c_string_at (literal_at a s) a s"
proof -
  assume "NUL \<notin> set s"
  moreover have "map (literal_at a s) [a..<a + length s] = s"
    unfolding literal_at_def by (rule map_poke_same)
  moreover have "literal_at a s (a + length s) = NUL"
    by (simp add: literal_at_def poke_def)
  ultimately show ?thesis by (simp add: c_string_at_def)
qed

lemma literals:
  "c_string_at (literal_at 0 ''004'') 0 ''004''" "c_string_at (literal_at 0 ''894'') 0 ''894''"
  "c_string_at (literal_at 0 ''005'') 0 ''005''" "c_string_at (literal_at 0 ''AAA'') 0 ''AAA''"
  "c_string_at (literal_at 0 ''0080'') 0 ''0080''" "c_string_at (literal_at 0 '''') 0 ''''"
  "c_string_at (literal_at 0 ''008'') 0 ''008''" "c_string_at (literal_at 0 ''011'') 0 ''011''"
  "c_string_at (literal_at 0 ''012'') 0 ''012''" "c_string_at (literal_at 0 ''020'') 0 ''020''"
  by (rule literal_at_c_string, simp add: NUL_def)+

section \<open>The linter on a lookup that returns\<close>

lemma gs1_lint_code_list_found:
  assumes "LOOKUP h d 0 = Some v" "v \<noteq> 0"
  shows "gs1_lint_code_list LOOKUP nil (Some d) err_pos err_len h = Some (Inr (GS1_LINTER_OK, h))"
  using assms by (simp add: gs1_lint_code_list_def)

text \<open>
  The failing path, written out: \<open>h1\<close> is the memory after the store through \<open>err_pos\<close>,
  and the length stored through \<open>err_len\<close> is counted in \<open>h1\<close>.
\<close>

lemma gs1_lint_code_list_missing:
  assumes "LOOKUP h d 0 = Some 0"
  shows "gs1_lint_code_list LOOKUP nil (Some d) err_pos err_len h =
           (let h1 = (case err_pos of None \<Rightarrow> h | Some p \<Rightarrow> poke p (size_t_bytes 0) h) in
            case err_len of
              None \<Rightarrow> Some (Inr (nil, h1))
            | Some l \<Rightarrow>
                (case strlen_at h1 d of
                   None \<Rightarrow> None
                 | Some n \<Rightarrow> Some (Inr (nil, poke l (size_t_bytes n) h1))))"
  using assms
  by (cases err_pos; cases err_len)
     (simp_all add: gs1_lint_code_list_def split: option.splits)

lemma gs1_lint_code_list_missing_returns:
  assumes "LOOKUP h d 0 = Some 0" "c_string_at h d s"
  shows "\<exists>n\<le>length s. gs1_lint_code_list LOOKUP nil (Some d) err_pos err_len h =
           Some (Inr (nil,
             (case err_len of None \<Rightarrow> id | Some l \<Rightarrow> poke l (size_t_bytes n))
               ((case err_pos of None \<Rightarrow> id | Some p \<Rightarrow> poke p (size_t_bytes 0)) h)))"
proof (cases err_pos)
  case None
  have "strlen_at h d = Some (length s)"
    using assms(2) by (rule strlen_at_c_string)
  then show ?thesis
    using None assms(1)
    by (intro exI [of _ "length s"]) (cases err_len; simp add: gs1_lint_code_list_missing)
next
  case (Some p)
  obtain n where n: "n \<le> length s" "strlen_at (poke p (size_t_bytes 0) h) d = Some n"
    using strlen_at_after_zero_store [OF assms(2)] by blast
  then show ?thesis
    using Some assms(1)
    by (intro exI [of _ n]) (cases err_len; simp add: gs1_lint_code_list_missing)
qed

lemma gs1_lint_code_list_missing_apart:
  assumes "LOOKUP h d 0 = Some 0" "c_string_at h d s"
    "\<forall>p. err_pos = Some p \<longrightarrow> s = [] \<or> p + sizeof_size_t \<le> d \<or> d + length s \<le> p"
  shows "gs1_lint_code_list LOOKUP nil (Some d) err_pos err_len h =
           Some (Inr (nil,
             (case err_len of None \<Rightarrow> id | Some l \<Rightarrow> poke l (size_t_bytes (length s)))
               ((case err_pos of None \<Rightarrow> id | Some p \<Rightarrow> poke p (size_t_bytes 0)) h)))"
proof -
  define h1 where "h1 = (case err_pos of None \<Rightarrow> h | Some p \<Rightarrow> poke p (size_t_bytes 0) h)"
  have "c_string_at h1 d s"
    using assms(2,3) by (cases err_pos) (simp_all add: h1_def c_string_at_zero_store_apart)
  then have "strlen_at h1 d = Some (length s)"
    by (rule strlen_at_c_string)
  then show ?thesis
    using assms(1)
    by (cases err_pos; cases err_len) (simp_all add: gs1_lint_code_list_missing h1_def)
qed

text \<open>The two stores change no byte outside the objects the out-parameters point to.\<close>

lemma stores_frame:
  assumes "\<forall>p. err_pos = Some p \<longrightarrow> a < p \<or> p + sizeof_size_t \<le> a"
    "\<forall>l. err_len = Some l \<longrightarrow> a < l \<or> l + sizeof_size_t \<le> a"
  shows "(case err_len of None \<Rightarrow> id | Some l \<Rightarrow> poke l (size_t_bytes n))
           ((case err_pos of None \<Rightarrow> id | Some p \<Rightarrow> poke p (size_t_bytes 0)) h) a = h a"
  using assms
  by (cases err_pos; cases err_len) (auto simp: poke_def length_size_t_bytes)

lemma ISO3166_LOOKUP_eq:
  assumes "c_string_at h d s"
  shows "GS1_LINTER_ISO3166_LOOKUP h d valid = Some (if s \<in> set iso3166 then 1 else valid)"
  by (simp add: GS1_LINTER_ISO3166_LOOKUP_def binary_search_lookup_sorted [OF iso3166_sorted]
        iso3166_member_iff [OF assms])

lemma table3_LOOKUP_eq:
  assumes "c_string_at h d s"
  shows "binary_search_lookup [''008'', ''012'', ''032''] h d valid =
           Some (if s \<in> set [''008'', ''012'', ''032''] then 1 else valid)"
  by (simp only: binary_search_lookup_sorted [OF table3_sorted] table3_member_iff [OF assms])

lemma gs1_lint_iso3166_found:
  assumes "c_string_at h d s" "s \<in> set iso3166"
  shows "gs1_lint_iso3166 (Some d) err_pos err_len h = Some (Inr (GS1_LINTER_OK, h))"
  unfolding gs1_lint_iso3166_def
  by (rule gs1_lint_code_list_found [where v = 1])
     (simp_all add: ISO3166_LOOKUP_eq [OF assms(1)] assms(2))

lemma gs1_lint_iso3166_missing_returns:
  assumes "c_string_at h d s" "s \<notin> set iso3166"
  shows "\<exists>n\<le>length s. gs1_lint_iso3166 (Some d) err_pos err_len h =
           Some (Inr (GS1_LINTER_NOT_ISO3166,
             (case err_len of None \<Rightarrow> id | Some l \<Rightarrow> poke l (size_t_bytes n))
               ((case err_pos of None \<Rightarrow> id | Some p \<Rightarrow> poke p (size_t_bytes 0)) h)))"
  unfolding gs1_lint_iso3166_def
  by (rule gs1_lint_code_list_missing_returns [OF _ assms(1)])
     (simp add: ISO3166_LOOKUP_eq [OF assms(1)] assms(2))

lemma gs1_lint_iso3166_missing_apart:
  assumes "c_string_at h d s" "s \<notin> set iso3166"
    "\<forall>p. err_pos = Some p \<longrightarrow> s = [] \<or> p + sizeof_size_t \<le> d \<or> d + length s \<le> p"
  shows "gs1_lint_iso3166 (Some d) err_pos err_len h =
           Some (Inr (GS1_LINTER_NOT_ISO3166,
             (case err_len of None \<Rightarrow> id | Some l \<Rightarrow> poke l (size_t_bytes (length s)))
               ((case err_pos of None \<Rightarrow> id | Some p \<Rightarrow> poke p (size_t_bytes 0)) h)))"
  unfolding gs1_lint_iso3166_def
  by (rule gs1_lint_code_list_missing_apart [OF _ assms(1,3)])
     (simp add: ISO3166_LOOKUP_eq [OF assms(1)] assms(2))

lemma gs1_lint_iso3166_NULL:
  "gs1_lint_iso3166 None err_pos err_len h = Some (Inl Assertion_failed)"
  by (simp add: gs1_lint_iso3166_def gs1_lint_code_list_def)

text \<open>
  The call in which \<open>data\<close> and \<open>err_pos\<close> are the same address and the memory holds
  \<open>005\<close> there: the lookup misses, the store through \<open>err_pos\<close> puts a zero byte on the first
  character, and the length counted afterwards is 0.
\<close>

lemma overlapping_call:
  "gs1_lint_iso3166 (Some 0) (Some 0) (Some 8) (literal_at 0 ''005'') =
     Some (Inr (GS1_LINTER_NOT_ISO3166,
                poke 8 (size_t_bytes 0) (poke 0 (size_t_bytes 0) (literal_at 0 ''005''))))"
proof -
  have miss: "GS1_LINTER_ISO3166_LOOKUP (literal_at 0 ''005'') 0 0 = Some 0"
    using not_rows(4) by (simp add: ISO3166_LOOKUP_eq [OF literals(3)])
  have "poke 0 (size_t_bytes 0) (literal_at 0 ''005'') 0 = NUL"
    by (simp add: poke_def size_t_bytes_0 sizeof_size_t_def)
  then have "strlen_at (poke 0 (size_t_bytes 0) (literal_at 0 ''005'')) 0 = Some 0"
    unfolding strlen_at_def by (subst strlen_loop.simps) simp
  then show ?thesis
    unfolding gs1_lint_iso3166_def
    by (simp add: gs1_lint_code_list_missing [where LOOKUP = GS1_LINTER_ISO3166_LOOKUP, OF miss])
qed

lemma lengths:
  "length ''005'' = 3" "length ''011'' = 3" "length ''0080'' = 4"
  by simp_all

lemma apart_call:
  "gs1_lint_iso3166 (Some 0) (Some 16) (Some 8) (literal_at 0 ''005'') =
     Some (Inr (GS1_LINTER_NOT_ISO3166,
                poke 8 (size_t_bytes 3) (poke 16 (size_t_bytes 0) (literal_at 0 ''005''))))"
  using gs1_lint_iso3166_missing_apart
    [OF literals(3) not_rows(4), of "Some 16" "Some 8", unfolded lengths]
  by (simp add: sizeof_size_t_def)

section \<open>Properties of the linter\<close>

subsection \<open>Completeness and soundness\<close>

text \<open>
  C1 (completeness). For every code that stands in the table \<open>iso3166\<close>, the linter called
  on that very string, wherever in the memory it stands, returns \<open>GS1_LINTER_OK\<close>,
  whatever the out-parameters are; the caller's memory is as before.
\<close>

theorem iso3166_completeness:
  "code \<in> set iso3166 \<Longrightarrow> c_string_at h d code \<Longrightarrow>
   gs1_lint_iso3166 (Some d) err_pos err_len h = Some (Inr (GS1_LINTER_OK, h))"
  by (rule gs1_lint_iso3166_found)

theorem iso3166_completeness_witness:
  "''004'' \<in> set iso3166 \<and> ''894'' \<in> set iso3166 \<and>
   c_string_at (literal_at 0 ''004'') 0 ''004'' \<and> c_string_at (literal_at 0 ''894'') 0 ''894'' \<and>
   gs1_lint_iso3166 (Some 0) (Some 8) (Some 16) (literal_at 0 ''004'') =
     Some (Inr (GS1_LINTER_OK, literal_at 0 ''004'')) \<and>
   gs1_lint_iso3166 (Some 0) None None (literal_at 0 ''894'') =
     Some (Inr (GS1_LINTER_OK, literal_at 0 ''894''))"
proof -
  have a: "''004'' \<in> set iso3166" and b: "''894'' \<in> set iso3166"
    by (simp_all add: iso3166_def)
  show ?thesis
    using a b literals(1,2)
      iso3166_completeness [OF a literals(1), of "Some 8" "Some 16"]
      iso3166_completeness [OF b literals(2), of None None]
    by simp
qed

text \<open>
  C2 (soundness). For every null-terminated input string that is not a row of \<open>iso3166\<close>,
  the linter returns \<open>GS1_LINTER_NOT_ISO3166\<close>, never \<open>GS1_LINTER_OK\<close>. A string whose
  length is not 3 and a string with a character that is not a digit are such inputs, and
  so is the empty string.
\<close>

theorem iso3166_soundness:
  "c_string_at h d s \<Longrightarrow>
   (s \<notin> set iso3166 \<longrightarrow>
      (\<exists>h'. gs1_lint_iso3166 (Some d) err_pos err_len h =
             Some (Inr (GS1_LINTER_NOT_ISO3166, h')))) \<and>
   (length s \<noteq> 3 \<longrightarrow>
      (\<exists>h'. gs1_lint_iso3166 (Some d) err_pos err_len h =
             Some (Inr (GS1_LINTER_NOT_ISO3166, h')))) \<and>
   ((\<exists>c\<in>set s. c \<notin> set ''0123456789'') \<longrightarrow>
      (\<exists>h'. gs1_lint_iso3166 (Some d) err_pos err_len h =
             Some (Inr (GS1_LINTER_NOT_ISO3166, h'))))"
proof -
  assume at: "c_string_at h d s"
  have len: "s \<notin> set iso3166" if "length s \<noteq> 3"
    using iso3166_rows that by (auto simp: list_all_iff)
  have dig: "s \<notin> set iso3166" if "\<exists>c\<in>set s. c \<notin> set ''0123456789''"
  proof
    assume "s \<in> set iso3166"
    then have "set s \<subseteq> set ''0123456789''"
      using iso3166_digits by (simp add: list_all_iff)
    with that show False by blast
  qed
  have "\<exists>h'. gs1_lint_iso3166 (Some d) err_pos err_len h =
             Some (Inr (GS1_LINTER_NOT_ISO3166, h'))" if "s \<notin> set iso3166"
    using gs1_lint_iso3166_missing_returns [OF at that, of err_pos err_len] by blast
  with len dig show ?thesis by blast
qed

theorem iso3166_soundness_witness:
  "c_string_at (literal_at 0 '''') 0 '''' \<and> c_string_at (literal_at 0 ''0080'') 0 ''0080'' \<and>
   c_string_at (literal_at 0 ''AAA'') 0 ''AAA'' \<and> c_string_at (literal_at 0 ''005'') 0 ''005'' \<and>
   '''' \<notin> set iso3166 \<and> length ''0080'' \<noteq> 3 \<and>
   (\<exists>c\<in>set ''AAA''. c \<notin> set ''0123456789'') \<and> ''005'' \<notin> set iso3166 \<and>
   (\<exists>h'. gs1_lint_iso3166 (Some 0) None None (literal_at 0 '''') =
          Some (Inr (GS1_LINTER_NOT_ISO3166, h'))) \<and>
   (\<exists>h'. gs1_lint_iso3166 (Some 0) (Some 8) (Some 16) (literal_at 0 ''0080'') =
          Some (Inr (GS1_LINTER_NOT_ISO3166, h'))) \<and>
   (\<exists>h'. gs1_lint_iso3166 (Some 0) (Some 0) (Some 0) (literal_at 0 ''AAA'') =
          Some (Inr (GS1_LINTER_NOT_ISO3166, h'))) \<and>
   (\<exists>h'. gs1_lint_iso3166 (Some 0) (Some 8) None (literal_at 0 ''005'') =
          Some (Inr (GS1_LINTER_NOT_ISO3166, h')))"
proof -
  have a: "length ''0080'' \<noteq> 3" by simp
  have b: "\<exists>c\<in>set ''AAA''. c \<notin> set ''0123456789''" by simp
  show ?thesis
    using not_rows(1) not_rows(4) a b literals(3,4,5,6)
      iso3166_soundness [OF literals(6), of None None]
      iso3166_soundness [OF literals(5), of "Some 8" "Some 16"]
      iso3166_soundness [OF literals(4), of "Some 0" "Some 0"]
      iso3166_soundness [OF literals(3), of "Some 8" None]
    by blast
qed

subsection \<open>The error span\<close>

text \<open>
  C3 as it is written fails: it speaks of every failing call with \<open>err_pos\<close> and \<open>err_len\<close>
  not \<^verbatim>\<open>NULL\<close>, and in the call where \<open>data\<close> and \<open>err_pos\<close> are the same address and the
  memory holds \<open>005\<close> there, the linter fails and the length it stores through \<open>err_len\<close>
  is 0, not 3: the store of 0 through \<open>err_pos\<close> comes before \<^verbatim>\<open>strlen(data)\<close>.
\<close>

theorem error_span_overlap_counterexample:
  "c_string_at (literal_at 0 ''005'') 0 ''005'' \<and>
   gs1_lint_iso3166 (Some 0) (Some 0) (Some 8) (literal_at 0 ''005'') =
     Some (Inr (GS1_LINTER_NOT_ISO3166,
                poke 8 (size_t_bytes 0) (poke 0 (size_t_bytes 0) (literal_at 0 ''005'')))) \<and>
   load_size_t (poke 8 (size_t_bytes 0) (poke 0 (size_t_bytes 0) (literal_at 0 ''005''))) 8 = 0 \<and>
   length ''005'' = 3 \<and>
   load_size_t (poke 8 (size_t_bytes 0) (poke 0 (size_t_bytes 0) (literal_at 0 ''005''))) 8
     \<noteq> length ''005''"
proof -
  have "load_size_t (poke 8 (size_t_bytes 0) (poke 0 (size_t_bytes 0) (literal_at 0 ''005''))) 8
          = 0"
    by (simp add: load_store_same)
  then show ?thesis
    using literals(3) overlapping_call by simp
qed

text \<open>
  C3 (exactness of the error span), amended. Whenever the linter fails on a
  null-terminated input string \<open>s\<close>, \<open>err_pos\<close> and \<open>err_len\<close> are not \<^verbatim>\<open>NULL\<close> and no
  character of \<open>s\<close> lies in the object \<open>err_pos\<close> points to, the result is
  \<open>GS1_LINTER_NOT_ISO3166\<close> and the memory is the caller's with 0 stored through \<open>err_pos\<close>
  and then the length of the whole of \<open>s\<close> stored through \<open>err_len\<close>: read back, \<open>err_len\<close>
  is that length, and \<open>err_pos\<close> is 0 when the two objects do not overlap. For the empty
  string the length stored is 0, wherever the out-parameters point.
\<close>

theorem error_span_exact:
  "(c_string_at h d s \<and> (s = [] \<or> p + sizeof_size_t \<le> d \<or> d + length s \<le> p) \<and>
    gs1_lint_iso3166 (Some d) (Some p) (Some l) h = Some (Inr (rc, h')) \<and>
    rc \<noteq> GS1_LINTER_OK \<longrightarrow>
      rc = GS1_LINTER_NOT_ISO3166 \<and>
      h' = poke l (size_t_bytes (length s)) (poke p (size_t_bytes 0) h) \<and>
      load_size_t h' l = length s mod 2 ^ 64 \<and>
      (p + sizeof_size_t \<le> l \<or> l + sizeof_size_t \<le> p \<longrightarrow> load_size_t h' p = 0)) \<and>
   (c_string_at h d [] \<longrightarrow>
      gs1_lint_iso3166 (Some d) (Some p) (Some l) h =
        Some (Inr (GS1_LINTER_NOT_ISO3166, poke l (size_t_bytes 0) (poke p (size_t_bytes 0) h))))"
proof (intro conjI impI)
  assume "c_string_at h d []"
  then show "gs1_lint_iso3166 (Some d) (Some p) (Some l) h =
        Some (Inr (GS1_LINTER_NOT_ISO3166, poke l (size_t_bytes 0) (poke p (size_t_bytes 0) h)))"
    using gs1_lint_iso3166_missing_apart [OF _ not_rows(1), of h d "Some p" "Some l"] by simp
next
  assume a: "c_string_at h d s \<and> (s = [] \<or> p + sizeof_size_t \<le> d \<or> d + length s \<le> p) \<and>
    gs1_lint_iso3166 (Some d) (Some p) (Some l) h = Some (Inr (rc, h')) \<and>
    rc \<noteq> GS1_LINTER_OK"
  then have at: "c_string_at h d s" by blast
  have miss: "s \<notin> set iso3166"
  proof
    assume "s \<in> set iso3166"
    then have "gs1_lint_iso3166 (Some d) (Some p) (Some l) h = Some (Inr (GS1_LINTER_OK, h))"
      by (rule gs1_lint_iso3166_found [OF at])
    with a show False by auto
  qed
  have "gs1_lint_iso3166 (Some d) (Some p) (Some l) h =
      Some (Inr (GS1_LINTER_NOT_ISO3166,
                 poke l (size_t_bytes (length s)) (poke p (size_t_bytes 0) h)))"
    using gs1_lint_iso3166_missing_apart [OF at miss, of "Some p" "Some l"] a by simp
  with a have rc: "rc = GS1_LINTER_NOT_ISO3166"
    and h': "h' = poke l (size_t_bytes (length s)) (poke p (size_t_bytes 0) h)"
    by simp_all
  show "rc = GS1_LINTER_NOT_ISO3166" by (rule rc)
  show "h' = poke l (size_t_bytes (length s)) (poke p (size_t_bytes 0) h)" by (rule h')
  show "load_size_t h' l = length s mod 2 ^ 64"
    unfolding h' by (rule load_store_same)
  show "load_size_t h' p = 0" if "p + sizeof_size_t \<le> l \<or> l + sizeof_size_t \<le> p"
    unfolding h' using that by (simp add: load_store_other load_store_same)
qed

theorem error_span_exact_witness:
  "c_string_at (literal_at 0 ''005'') 0 ''005'' \<and> (8::nat) + sizeof_size_t \<le> 16 \<and>
   (0::nat) + length ''005'' \<le> 8 \<and>
   gs1_lint_iso3166 (Some 0) (Some 8) (Some 16) (literal_at 0 ''005'') =
     Some (Inr (GS1_LINTER_NOT_ISO3166,
                poke 16 (size_t_bytes 3) (poke 8 (size_t_bytes 0) (literal_at 0 ''005'')))) \<and>
   GS1_LINTER_NOT_ISO3166 \<noteq> GS1_LINTER_OK \<and>
   load_size_t (poke 16 (size_t_bytes 3) (poke 8 (size_t_bytes 0) (literal_at 0 ''005''))) 16 = 3 \<and>
   load_size_t (poke 16 (size_t_bytes 3) (poke 8 (size_t_bytes 0) (literal_at 0 ''005''))) 8 = 0 \<and>
   c_string_at (literal_at 0 '''') 0 '''' \<and>
   gs1_lint_iso3166 (Some 0) (Some 0) (Some 8) (literal_at 0 '''') =
     Some (Inr (GS1_LINTER_NOT_ISO3166,
                poke 8 (size_t_bytes 0) (poke 0 (size_t_bytes 0) (literal_at 0 ''''))))"
proof -
  obtain h' where r: "gs1_lint_iso3166 (Some 0) (Some 8) (Some 16) (literal_at 0 ''005'') =
      Some (Inr (GS1_LINTER_NOT_ISO3166, h'))"
    using gs1_lint_iso3166_missing_returns [OF literals(3) not_rows(4), of "Some 8" "Some 16"]
    by auto
  have apart: "(8::nat) + sizeof_size_t \<le> 16" "(0::nat) + length ''005'' \<le> 8"
    by (simp_all add: sizeof_size_t_def)
  have prem: "c_string_at (literal_at 0 ''005'') 0 ''005'' \<and>
      (''005'' = [] \<or> (8::nat) + sizeof_size_t \<le> 0 \<or> (0::nat) + 3 \<le> 8) \<and>
      gs1_lint_iso3166 (Some 0) (Some 8) (Some 16) (literal_at 0 ''005'') =
        Some (Inr (GS1_LINTER_NOT_ISO3166, h')) \<and>
      GS1_LINTER_NOT_ISO3166 \<noteq> GS1_LINTER_OK"
    using literals(3) r by simp
  note span = error_span_exact [of "literal_at 0 ''005''" 0 "''005''" 8 16
      GS1_LINTER_NOT_ISO3166 h', unfolded lengths, THEN conjunct1, rule_format, OF prem]
  have h': "h' = poke 16 (size_t_bytes 3) (poke 8 (size_t_bytes 0) (literal_at 0 ''005''))"
    using span by blast
  have m: "(3::nat) mod 2 ^ 64 = 3" by simp
  have "load_size_t h' 16 = 3"
    using span unfolding m by blast
  moreover have "load_size_t h' 8 = 0"
    using span apart(1) by blast
  ultimately have e: "gs1_lint_iso3166 (Some 0) (Some 8) (Some 16) (literal_at 0 ''005'') =
      Some (Inr (GS1_LINTER_NOT_ISO3166,
                 poke 16 (size_t_bytes 3) (poke 8 (size_t_bytes 0) (literal_at 0 ''005''))))"
    and l16: "load_size_t (poke 16 (size_t_bytes 3)
                 (poke 8 (size_t_bytes 0) (literal_at 0 ''005''))) 16 = 3"
    and l8: "load_size_t (poke 16 (size_t_bytes 3)
                 (poke 8 (size_t_bytes 0) (literal_at 0 ''005''))) 8 = 0"
    using r unfolding h' by simp_all
  have empty: "gs1_lint_iso3166 (Some 0) (Some 0) (Some 8) (literal_at 0 '''') =
     Some (Inr (GS1_LINTER_NOT_ISO3166,
                poke 8 (size_t_bytes 0) (poke 0 (size_t_bytes 0) (literal_at 0 ''''))))"
    using error_span_exact [of "literal_at 0 ''''" 0 "''''" 0 8] literals(6) by simp
  show ?thesis
    using literals(3,6) apart e l16 l8 empty by (intro conjI) simp_all
qed

subsection \<open>The table\<close>

text \<open>
  C4 (well-formed table). Every row of \<open>iso3166\<close> is three characters wide with no zero
  byte among them, the rows stand in strictly ascending order, both as \<open>strcmp\<close> compares
  them and in the lexicographic order of their bytes, and no row occurs twice.
\<close>

theorem iso3166_well_formed:
  "list_all (\<lambda>row. length row = 3 \<and> NUL \<notin> set row) iso3166 \<and>
   sorted_wrt (\<lambda>a b. strcmp a b < 0) iso3166 \<and>
   sorted_wrt (<) iso3166 \<and> distinct iso3166 \<and> length iso3166 = 249"
proof -
  have "sorted_wrt (\<lambda>a b. c_str a < c_str b) iso3166"
    using iso3166_sorted by (simp add: strcmp_less_iff)
  then have "sorted_wrt (<) (map c_str iso3166)"
    by (simp add: sorted_wrt_map)
  moreover have "map c_str iso3166 = iso3166"
    by (simp add: map_idI iso3166_row_c_str)
  ultimately have s: "sorted_wrt (<) iso3166" by simp
  then have "distinct iso3166" by (simp add: strict_sorted_iff)
  with s show ?thesis
    using iso3166_rows iso3166_sorted iso3166_length by simp
qed

subsection \<open>Termination\<close>

text \<open>
  C5 (termination of the search). From every state and in every memory the loop is left
  with a value for \<open>valid\<close>, so the lookup returns for every input. The loop is left when
  the bounds have crossed, with \<open>valid\<close> as it was, or when the row at the midpoint
  \<open>m = s + (e - s) div 2\<close> equals the input, with \<open>valid = 1\<close>; any other round goes on with
  the bounds \<open>(m + 1, e)\<close> or \<open>(s, m)\<close>, and \<open>e - s\<close> is strictly smaller for either. The
  linter returns for every null-terminated input string (and whenever \<open>err_len\<close> is
  \<^verbatim>\<open>NULL\<close>, since \<^verbatim>\<open>strlen\<close> is then not called); on \<^verbatim>\<open>NULL\<close> the assertion fails.
\<close>

theorem lookup_terminates:
  "(\<exists>v. lookup_while tbl h cc s e valid = Some v) \<and>
   (\<exists>v. GS1_LINTER_ISO3166_LOOKUP h cc valid = Some v) \<and>
   (c_string_at h d str \<or> err_len = None \<longrightarrow>
      (\<exists>r. gs1_lint_iso3166 (Some d) err_pos err_len h = Some r)) \<and>
   gs1_lint_iso3166 None err_pos err_len h = Some (Inl Assertion_failed) \<and>
   (\<not> s < e \<longrightarrow> lookup_while tbl h cc s e valid = Some valid) \<and>
   (s < e \<longrightarrow>
      (let m = s + (e - s) div 2; cmp = strcmp_at (tbl ! m) h cc in
         s \<le> m \<and> m < e \<and>
         (cmp < 0 \<longrightarrow> lookup_while tbl h cc s e valid = lookup_while tbl h cc (m + 1) e valid \<and>
                       e - (m + 1) < e - s) \<and>
         (0 < cmp \<longrightarrow> lookup_while tbl h cc s e valid = lookup_while tbl h cc s m valid \<and>
                       m - s < e - s) \<and>
         (cmp = 0 \<longrightarrow> lookup_while tbl h cc s e valid = Some 1)))"
proof (intro conjI)
  show "\<exists>v. lookup_while tbl h cc s e valid = Some v"
    by (rule lookup_while_returns)
  show look: "\<exists>v. GS1_LINTER_ISO3166_LOOKUP h cc valid = Some v" for cc valid
    unfolding GS1_LINTER_ISO3166_LOOKUP_def binary_search_lookup_def
    by (rule lookup_while_returns)
  show "c_string_at h d str \<or> err_len = None \<longrightarrow>
      (\<exists>r. gs1_lint_iso3166 (Some d) err_pos err_len h = Some r)"
  proof
    assume "c_string_at h d str \<or> err_len = None"
    then show "\<exists>r. gs1_lint_iso3166 (Some d) err_pos err_len h = Some r"
    proof
      assume at: "c_string_at h d str"
      show ?thesis
      proof (cases "str \<in> set iso3166")
        case True
        then show ?thesis using gs1_lint_iso3166_found [OF at] by blast
      next
        case False
        then show ?thesis
          using gs1_lint_iso3166_missing_returns [OF at, of err_pos err_len] by blast
      qed
    next
      assume none: "err_len = None"
      obtain v where v: "GS1_LINTER_ISO3166_LOOKUP h d 0 = Some v"
        using look by blast
      show ?thesis
      proof (cases "v = 0")
        case True
        with v none show ?thesis
          unfolding gs1_lint_iso3166_def
          by (simp add: gs1_lint_code_list_missing
                [where LOOKUP = GS1_LINTER_ISO3166_LOOKUP])
      next
        case False
        with v show ?thesis
          unfolding gs1_lint_iso3166_def
          using gs1_lint_code_list_found [where LOOKUP = GS1_LINTER_ISO3166_LOOKUP]
          by blast
      qed
    qed
  qed
  show "gs1_lint_iso3166 None err_pos err_len h = Some (Inl Assertion_failed)"
    by (rule gs1_lint_iso3166_NULL)
  show "\<not> s < e \<longrightarrow> lookup_while tbl h cc s e valid = Some valid"
    by (subst lookup_while.simps) simp
  show "s < e \<longrightarrow>
      (let m = s + (e - s) div 2; cmp = strcmp_at (tbl ! m) h cc in
         s \<le> m \<and> m < e \<and>
         (cmp < 0 \<longrightarrow> lookup_while tbl h cc s e valid = lookup_while tbl h cc (m + 1) e valid \<and>
                       e - (m + 1) < e - s) \<and>
         (0 < cmp \<longrightarrow> lookup_while tbl h cc s e valid = lookup_while tbl h cc s m valid \<and>
                       m - s < e - s) \<and>
         (cmp = 0 \<longrightarrow> lookup_while tbl h cc s e valid = Some 1))"
  proof
    assume lt: "s < e"
    define m where "m = s + (e - s) div 2"
    have m: "s \<le> m" "m < e" using lt by (simp_all add: m_def)
    have unfold: "lookup_while tbl h cc s e valid =
           (if strcmp_at (tbl ! m) h cc < 0 then lookup_while tbl h cc (m + 1) e valid
            else if 0 < strcmp_at (tbl ! m) h cc then lookup_while tbl h cc s m valid
            else Some 1)"
      using lt by (subst lookup_while.simps) (simp add: Let_def m_def)
    have "e - (m + 1) < e - s" "m - s < e - s" using m by linarith+
    then show "let m = s + (e - s) div 2; cmp = strcmp_at (tbl ! m) h cc in
         s \<le> m \<and> m < e \<and>
         (cmp < 0 \<longrightarrow> lookup_while tbl h cc s e valid = lookup_while tbl h cc (m + 1) e valid \<and>
                       e - (m + 1) < e - s) \<and>
         (0 < cmp \<longrightarrow> lookup_while tbl h cc s e valid = lookup_while tbl h cc s m valid \<and>
                       m - s < e - s) \<and>
         (cmp = 0 \<longrightarrow> lookup_while tbl h cc s e valid = Some 1)"
      using m unfold by (simp add: Let_def m_def [symmetric])
  qed
qed

lemma table3_strcmp_at:
  "0 < strcmp_at ([''008'', ''012'', ''032''] ! 1) (literal_at 0 ''011'') 0"
  "strcmp_at ([''008'', ''012'', ''032''] ! 1) (literal_at 0 ''020'') 0 < 0"
  "strcmp_at ([''008'', ''012'', ''032''] ! 1) (literal_at 0 ''012'') 0 = 0"
  by (simp_all add: strcmp_at_c_string [OF literals(8)] strcmp_at_c_string [OF literals(10)]
        strcmp_at_c_string [OF literals(9)] uchar_def NUL_def)

theorem lookup_terminates_witness:
  "(0::nat) < 3 \<and> \<not> (3::nat) < 3 \<and>
   0 < strcmp_at ([''008'', ''012'', ''032''] ! 1) (literal_at 0 ''011'') 0 \<and>
   strcmp_at ([''008'', ''012'', ''032''] ! 1) (literal_at 0 ''020'') 0 < 0 \<and>
   strcmp_at ([''008'', ''012'', ''032''] ! 1) (literal_at 0 ''012'') 0 = 0 \<and>
   c_string_at (literal_at 0 ''011'') 0 ''011'' \<and>
   lookup_while [''008'', ''012'', ''032''] (literal_at 0 ''011'') 0 0 3 0 =
     lookup_while [''008'', ''012'', ''032''] (literal_at 0 ''011'') 0 0 1 0 \<and>
   lookup_while [''008'', ''012'', ''032''] (literal_at 0 ''020'') 0 0 3 0 =
     lookup_while [''008'', ''012'', ''032''] (literal_at 0 ''020'') 0 2 3 0 \<and>
   lookup_while [''008'', ''012'', ''032''] (literal_at 0 ''012'') 0 0 3 0 = Some 1 \<and>
   lookup_while [''008'', ''012'', ''032''] (literal_at 0 ''011'') 0 3 3 0 = Some 0 \<and>
   (\<exists>v. lookup_while [''008'', ''012'', ''032''] (literal_at 0 ''011'') 0 0 3 0 = Some v) \<and>
   (\<exists>r. gs1_lint_iso3166 (Some 0) (Some 8) (Some 16) (literal_at 0 ''011'') = Some r)"
proof -
  have mid: "(0::nat) + (3 - 0) div 2 = 1" "(1::nat) + 1 = 2" by simp_all
  have a: "lookup_while [''008'', ''012'', ''032''] (literal_at 0 ''011'') 0 0 3 0 =
     lookup_while [''008'', ''012'', ''032''] (literal_at 0 ''011'') 0 0 1 0"
    using table3_strcmp_at(1)
      lookup_terminates [of "[''008'', ''012'', ''032'']" "literal_at 0 ''011''" 0 0 3 0]
    by (simp only: Let_def mid | simp)+
  have b: "lookup_while [''008'', ''012'', ''032''] (literal_at 0 ''020'') 0 0 3 0 =
     lookup_while [''008'', ''012'', ''032''] (literal_at 0 ''020'') 0 2 3 0"
    using table3_strcmp_at(2)
      lookup_terminates [of "[''008'', ''012'', ''032'']" "literal_at 0 ''020''" 0 0 3 0]
    by (simp only: Let_def mid | simp)+
  have c: "lookup_while [''008'', ''012'', ''032''] (literal_at 0 ''012'') 0 0 3 0 = Some 1"
    using table3_strcmp_at(3)
      lookup_terminates [of "[''008'', ''012'', ''032'']" "literal_at 0 ''012''" 0 0 3 0]
    by (simp only: Let_def mid | simp)+
  have d: "lookup_while [''008'', ''012'', ''032''] (literal_at 0 ''011'') 0 3 3 0 = Some 0"
    using lookup_terminates [of "[''008'', ''012'', ''032'']" "literal_at 0 ''011''" 0 3 3 0]
    by simp
  have e: "\<exists>v. lookup_while [''008'', ''012'', ''032''] (literal_at 0 ''011'') 0 0 3 0 = Some v"
    using lookup_terminates [of "[''008'', ''012'', ''032'']" "literal_at 0 ''011''" 0 0 3 0]
    by blast
  have f: "\<exists>r. gs1_lint_iso3166 (Some 0) (Some 8) (Some 16) (literal_at 0 ''011'') = Some r"
    using lookup_terminates [of _ "literal_at 0 ''011''" _ _ _ _ 0 "''011''" "Some 16" "Some 8"]
      literals(8)
    by blast
  show ?thesis
    using table3_strcmp_at literals(8) a b c d e f by (intro conjI) simp_all
qed

subsection \<open>The lookup strategy\<close>

text \<open>
  C6 (order independence of the lookup strategy). On a table in strictly ascending order,
  the linter with the built-in binary search and the linter with the reference scan of the
  same table give the same outcome for every input pointer, every pair of out-parameters
  and every memory: the same result code and the same memory afterwards. So do
  \<open>gs1_lint_iso3166\<close> and \<open>gs1_lint_iso4217\<close> and the linters that scan their tables.
\<close>

theorem lookup_strategy_equivalence:
  "(sorted_wrt (\<lambda>a b. strcmp a b < 0) tbl \<longrightarrow>
      gs1_lint_code_list (binary_search_lookup tbl) not_in_list data err_pos err_len h =
      gs1_lint_code_list (reference_lookup tbl) not_in_list data err_pos err_len h) \<and>
   gs1_lint_iso3166 data err_pos err_len h =
      gs1_lint_code_list (reference_lookup iso3166) GS1_LINTER_NOT_ISO3166 data err_pos err_len h \<and>
   gs1_lint_iso4217 data err_pos err_len h =
      gs1_lint_code_list (reference_lookup iso4217) GS1_LINTER_NOT_ISO4217 data err_pos err_len h"
proof -
  have "GS1_LINTER_ISO3166_LOOKUP = reference_lookup iso3166"
    using reference_lookup_eq_binary_search [OF iso3166_sorted]
    by (intro ext) (simp add: GS1_LINTER_ISO3166_LOOKUP_def)
  moreover have "GS1_LINTER_ISO4217_LOOKUP = reference_lookup iso4217"
    using reference_lookup_eq_binary_search [OF iso4217_sorted]
    by (intro ext) (simp add: GS1_LINTER_ISO4217_LOOKUP_def)
  ultimately show ?thesis
    by (simp add: reference_lookup_eq_binary_search gs1_lint_iso3166_def gs1_lint_iso4217_def)
qed

theorem lookup_strategy_equivalence_witness:
  "sorted_wrt (\<lambda>a b. strcmp a b < 0) [''008'', ''012'', ''032''] \<and>
   gs1_lint_code_list (binary_search_lookup [''008'', ''012'', ''032'']) GS1_LINTER_NOT_ISO4217
       (Some 0) (Some 8) (Some 16) (literal_at 0 ''011'') =
   gs1_lint_code_list (reference_lookup [''008'', ''012'', ''032'']) GS1_LINTER_NOT_ISO4217
       (Some 0) (Some 8) (Some 16) (literal_at 0 ''011'') \<and>
   gs1_lint_code_list (reference_lookup [''008'', ''012'', ''032'']) GS1_LINTER_NOT_ISO4217
       (Some 0) (Some 8) (Some 16) (literal_at 0 ''011'') =
     Some (Inr (GS1_LINTER_NOT_ISO4217,
                poke 16 (size_t_bytes 3) (poke 8 (size_t_bytes 0) (literal_at 0 ''011''))))"
proof -
  have "''011'' \<notin> set [''008'', ''012'', ''032'']" by simp
  then have miss: "reference_lookup [''008'', ''012'', ''032''] (literal_at 0 ''011'') 0 0 = Some 0"
    by (simp only: reference_lookup_def reference_scan_eq table3_member_iff [OF literals(8)]
          if_False)
  have r: "gs1_lint_code_list (reference_lookup [''008'', ''012'', ''032'']) GS1_LINTER_NOT_ISO4217
       (Some 0) (Some 8) (Some 16) (literal_at 0 ''011'') =
     Some (Inr (GS1_LINTER_NOT_ISO4217,
                poke 16 (size_t_bytes 3) (poke 8 (size_t_bytes 0) (literal_at 0 ''011''))))"
    using gs1_lint_code_list_missing_apart
      [where LOOKUP = "reference_lookup [''008'', ''012'', ''032'']", OF miss literals(8),
        of "Some 8" GS1_LINTER_NOT_ISO4217 "Some 16", unfolded lengths]
    by (simp add: sizeof_size_t_def)
  show ?thesis
    using table3_sorted r
      lookup_strategy_equivalence [of "[''008'', ''012'', ''032'']" GS1_LINTER_NOT_ISO4217
        "Some 0" "Some 8" "Some 16" "literal_at 0 ''011''"]
    by simp
qed

subsection \<open>A table of three rows\<close>

text \<open>
  C7 (boundary probing). For the linter whose table is exactly \<open>008\<close>, \<open>012\<close>, \<open>032\<close>,
  called on a string in the memory: the input \<open>008\<close> is accepted; \<open>011\<close> and \<open>0080\<close> are
  refused, wherever the out-parameters point; the empty string is refused with length 0
  stored through \<open>err_len\<close>. When \<open>err_pos\<close> points to none of the characters of the
  input, as in a call with variables of the caller's own, the call on \<open>011\<close> stores 0
  through \<open>err_pos\<close> and 3 through \<open>err_len\<close>, which is what is read back from them, and
  the call on \<open>0080\<close> stores 0 and 4. Here \<open>not_in_set\<close> is whatever code that linter
  returns for a string not in its list.
\<close>

theorem boundary_probing:
  "(c_string_at h d ''008'' \<longrightarrow>
      gs1_lint_code_list (binary_search_lookup [''008'', ''012'', ''032'']) not_in_set
        (Some d) err_pos err_len h = Some (Inr (GS1_LINTER_OK, h))) \<and>
   (c_string_at h d ''011'' \<longrightarrow>
      (\<exists>h'. gs1_lint_code_list (binary_search_lookup [''008'', ''012'', ''032'']) not_in_set
         (Some d) err_pos err_len h = Some (Inr (not_in_set, h')))) \<and>
   (c_string_at h d ''011'' \<and> (p + sizeof_size_t \<le> d \<or> d + 3 \<le> p) \<longrightarrow>
      gs1_lint_code_list (binary_search_lookup [''008'', ''012'', ''032'']) not_in_set
        (Some d) (Some p) (Some l) h =
          Some (Inr (not_in_set, poke l (size_t_bytes 3) (poke p (size_t_bytes 0) h))) \<and>
      load_size_t (poke l (size_t_bytes 3) (poke p (size_t_bytes 0) h)) l = 3 \<and>
      (p + sizeof_size_t \<le> l \<or> l + sizeof_size_t \<le> p \<longrightarrow>
         load_size_t (poke l (size_t_bytes 3) (poke p (size_t_bytes 0) h)) p = 0)) \<and>
   (c_string_at h d ''0080'' \<longrightarrow>
      (\<exists>h'. gs1_lint_code_list (binary_search_lookup [''008'', ''012'', ''032'']) not_in_set
         (Some d) err_pos err_len h = Some (Inr (not_in_set, h')))) \<and>
   (c_string_at h d ''0080'' \<and> (p + sizeof_size_t \<le> d \<or> d + 4 \<le> p) \<longrightarrow>
      gs1_lint_code_list (binary_search_lookup [''008'', ''012'', ''032'']) not_in_set
        (Some d) (Some p) (Some l) h =
          Some (Inr (not_in_set, poke l (size_t_bytes 4) (poke p (size_t_bytes 0) h)))) \<and>
   (c_string_at h d '''' \<longrightarrow>
      gs1_lint_code_list (binary_search_lookup [''008'', ''012'', ''032'']) not_in_set
        (Some d) (Some p) (Some l) h =
          Some (Inr (not_in_set, poke l (size_t_bytes 0) (poke p (size_t_bytes 0) h))) \<and>
      load_size_t (poke l (size_t_bytes 0) (poke p (size_t_bytes 0) h)) l = 0)"
proof (intro conjI impI)
  assume at: "c_string_at h d ''008''"
  show "gs1_lint_code_list (binary_search_lookup [''008'', ''012'', ''032'']) not_in_set
        (Some d) err_pos err_len h = Some (Inr (GS1_LINTER_OK, h))"
    by (rule gs1_lint_code_list_found [where v = 1]) (simp_all add: table3_LOOKUP_eq [OF at])
next
  assume at: "c_string_at h d ''011''"
  have miss: "binary_search_lookup [''008'', ''012'', ''032''] h d 0 = Some 0"
    by (simp add: table3_LOOKUP_eq [OF at])
  show "\<exists>h'. gs1_lint_code_list (binary_search_lookup [''008'', ''012'', ''032'']) not_in_set
         (Some d) err_pos err_len h = Some (Inr (not_in_set, h'))"
    using gs1_lint_code_list_missing_returns
      [where LOOKUP = "binary_search_lookup [''008'', ''012'', ''032'']", OF miss at,
        of not_in_set err_pos err_len]
    by blast
next
  assume a: "c_string_at h d ''011'' \<and> (p + sizeof_size_t \<le> d \<or> d + 3 \<le> p)"
  then have at: "c_string_at h d ''011''" by blast
  have miss: "binary_search_lookup [''008'', ''012'', ''032''] h d 0 = Some 0"
    by (simp add: table3_LOOKUP_eq [OF at])
  show "gs1_lint_code_list (binary_search_lookup [''008'', ''012'', ''032'']) not_in_set
        (Some d) (Some p) (Some l) h =
          Some (Inr (not_in_set, poke l (size_t_bytes 3) (poke p (size_t_bytes 0) h)))"
    using gs1_lint_code_list_missing_apart
      [where LOOKUP = "binary_search_lookup [''008'', ''012'', ''032'']", OF miss at,
        of "Some p" not_in_set "Some l", unfolded lengths] a
    by simp
  show "load_size_t (poke l (size_t_bytes 3) (poke p (size_t_bytes 0) h)) l = 3"
    by (simp add: load_store_same)
  show "load_size_t (poke l (size_t_bytes 3) (poke p (size_t_bytes 0) h)) p = 0"
    if "p + sizeof_size_t \<le> l \<or> l + sizeof_size_t \<le> p"
    using that by (simp add: load_store_other load_store_same)
next
  assume at: "c_string_at h d ''0080''"
  have miss: "binary_search_lookup [''008'', ''012'', ''032''] h d 0 = Some 0"
    by (simp add: table3_LOOKUP_eq [OF at])
  show "\<exists>h'. gs1_lint_code_list (binary_search_lookup [''008'', ''012'', ''032'']) not_in_set
         (Some d) err_pos err_len h = Some (Inr (not_in_set, h'))"
    using gs1_lint_code_list_missing_returns
      [where LOOKUP = "binary_search_lookup [''008'', ''012'', ''032'']", OF miss at,
        of not_in_set err_pos err_len]
    by blast
next
  assume a: "c_string_at h d ''0080'' \<and> (p + sizeof_size_t \<le> d \<or> d + 4 \<le> p)"
  then have at: "c_string_at h d ''0080''" by blast
  have miss: "binary_search_lookup [''008'', ''012'', ''032''] h d 0 = Some 0"
    by (simp add: table3_LOOKUP_eq [OF at])
  show "gs1_lint_code_list (binary_search_lookup [''008'', ''012'', ''032'']) not_in_set
        (Some d) (Some p) (Some l) h =
          Some (Inr (not_in_set, poke l (size_t_bytes 4) (poke p (size_t_bytes 0) h)))"
    using gs1_lint_code_list_missing_apart
      [where LOOKUP = "binary_search_lookup [''008'', ''012'', ''032'']", OF miss at,
        of "Some p" not_in_set "Some l", unfolded lengths] a
    by simp
next
  assume at: "c_string_at h d ''''"
  have miss: "binary_search_lookup [''008'', ''012'', ''032''] h d 0 = Some 0"
    by (simp add: table3_LOOKUP_eq [OF at])
  show "gs1_lint_code_list (binary_search_lookup [''008'', ''012'', ''032'']) not_in_set
        (Some d) (Some p) (Some l) h =
          Some (Inr (not_in_set, poke l (size_t_bytes 0) (poke p (size_t_bytes 0) h)))"
    using gs1_lint_code_list_missing_apart
      [where LOOKUP = "binary_search_lookup [''008'', ''012'', ''032'']", OF miss at,
        of "Some p" not_in_set "Some l"]
    by simp
  show "load_size_t (poke l (size_t_bytes 0) (poke p (size_t_bytes 0) h)) l = 0"
    by (simp add: load_store_same)
qed

theorem boundary_probing_witness:
  "c_string_at (literal_at 0 ''008'') 0 ''008'' \<and> c_string_at (literal_at 0 ''011'') 0 ''011'' \<and>
   c_string_at (literal_at 0 ''0080'') 0 ''0080'' \<and> c_string_at (literal_at 0 '''') 0 '''' \<and>
   (0::nat) + 3 \<le> 8 \<and> (0::nat) + 4 \<le> 8 \<and> (8::nat) + sizeof_size_t \<le> 16 \<and>
   gs1_lint_code_list (binary_search_lookup [''008'', ''012'', ''032'']) GS1_LINTER_NOT_ISO4217
     (Some 0) (Some 8) (Some 16) (literal_at 0 ''008'') =
       Some (Inr (GS1_LINTER_OK, literal_at 0 ''008'')) \<and>
   gs1_lint_code_list (binary_search_lookup [''008'', ''012'', ''032'']) GS1_LINTER_NOT_ISO4217
     (Some 0) (Some 8) (Some 16) (literal_at 0 ''011'') =
       Some (Inr (GS1_LINTER_NOT_ISO4217,
                  poke 16 (size_t_bytes 3) (poke 8 (size_t_bytes 0) (literal_at 0 ''011'')))) \<and>
   load_size_t (poke 16 (size_t_bytes 3) (poke 8 (size_t_bytes 0) (literal_at 0 ''011''))) 16 = 3 \<and>
   load_size_t (poke 16 (size_t_bytes 3) (poke 8 (size_t_bytes 0) (literal_at 0 ''011''))) 8 = 0 \<and>
   (\<exists>h'. gs1_lint_code_list (binary_search_lookup [''008'', ''012'', ''032''])
      GS1_LINTER_NOT_ISO4217 (Some 0) (Some 0) (Some 8) (literal_at 0 ''011'') =
        Some (Inr (GS1_LINTER_NOT_ISO4217, h'))) \<and>
   gs1_lint_code_list (binary_search_lookup [''008'', ''012'', ''032'']) GS1_LINTER_NOT_ISO4217
     (Some 0) (Some 8) (Some 16) (literal_at 0 ''0080'') =
       Some (Inr (GS1_LINTER_NOT_ISO4217,
                  poke 16 (size_t_bytes 4) (poke 8 (size_t_bytes 0) (literal_at 0 ''0080'')))) \<and>
   (\<exists>h'. gs1_lint_code_list (binary_search_lookup [''008'', ''012'', ''032''])
      GS1_LINTER_NOT_ISO4217 (Some 0) (Some 0) None (literal_at 0 ''0080'') =
        Some (Inr (GS1_LINTER_NOT_ISO4217, h'))) \<and>
   gs1_lint_code_list (binary_search_lookup [''008'', ''012'', ''032'']) GS1_LINTER_NOT_ISO4217
     (Some 0) (Some 8) (Some 16) (literal_at 0 '''') =
       Some (Inr (GS1_LINTER_NOT_ISO4217,
                  poke 16 (size_t_bytes 0) (poke 8 (size_t_bytes 0) (literal_at 0 '''')))) \<and>
   load_size_t (poke 16 (size_t_bytes 0) (poke 8 (size_t_bytes 0) (literal_at 0 ''''))) 16 = 0"
proof -
  have apart: "(0::nat) + 3 \<le> 8" "(0::nat) + 4 \<le> 8" "(8::nat) + sizeof_size_t \<le> 16"
    by (simp_all add: sizeof_size_t_def)
  note b008 = boundary_probing [of "literal_at 0 ''008''" 0 GS1_LINTER_NOT_ISO4217
      "Some 8" "Some 16" 8 16, THEN conjunct1, rule_format, OF literals(7)]
  note r011 = boundary_probing [of "literal_at 0 ''011''" 0 GS1_LINTER_NOT_ISO4217
      "Some 0" "Some 8" 8 16, THEN conjunct2, THEN conjunct1, rule_format, OF literals(8)]
  have p011: "c_string_at (literal_at 0 ''011'') 0 ''011'' \<and>
      ((8::nat) + sizeof_size_t \<le> 0 \<or> (0::nat) + 3 \<le> 8)"
    using literals(8) by simp
  note b011 = boundary_probing [of "literal_at 0 ''011''" 0 GS1_LINTER_NOT_ISO4217
      "Some 8" "Some 16" 8 16, THEN conjunct2, THEN conjunct2, THEN conjunct1, rule_format,
      OF p011]
  note r0080 = boundary_probing [of "literal_at 0 ''0080''" 0 GS1_LINTER_NOT_ISO4217
      "Some 0" None 8 16, THEN conjunct2, THEN conjunct2, THEN conjunct2, THEN conjunct1,
      rule_format, OF literals(5)]
  have p0080: "c_string_at (literal_at 0 ''0080'') 0 ''0080'' \<and>
      ((8::nat) + sizeof_size_t \<le> 0 \<or> (0::nat) + 4 \<le> 8)"
    using literals(5) by simp
  note b0080 = boundary_probing [of "literal_at 0 ''0080''" 0 GS1_LINTER_NOT_ISO4217
      "Some 8" "Some 16" 8 16, THEN conjunct2, THEN conjunct2, THEN conjunct2, THEN conjunct2,
      THEN conjunct1, rule_format, OF p0080]
  note bempty = boundary_probing [of "literal_at 0 ''''" 0 GS1_LINTER_NOT_ISO4217
      "Some 8" "Some 16" 8 16, THEN conjunct2, THEN conjunct2, THEN conjunct2, THEN conjunct2,
      THEN conjunct2, rule_format, OF literals(6)]
  have l8: "load_size_t (poke 16 (size_t_bytes 3)
              (poke 8 (size_t_bytes 0) (literal_at 0 ''011''))) 8 = 0"
    using b011 apart(3) by blast
  show ?thesis
    using literals(5,6,7,8) apart b008 r011 b011 r0080 b0080 bempty l8
    by (intro conjI) simp_all
qed

subsection \<open>Determinism, optional out-parameters and the frame\<close>

text \<open>
  C8 as it is written fails: two calls on the same input string \<open>005\<close>, both with
  \<open>err_pos\<close> and \<open>err_len\<close> not \<^verbatim>\<open>NULL\<close> and in the same memory, store different lengths
  through \<open>err_len\<close>, 0 when \<open>err_pos\<close> is the address of the string and 3 when it points
  elsewhere.
\<close>

theorem determinism_overlap_counterexample:
  "c_string_at (literal_at 0 ''005'') 0 ''005'' \<and>
   gs1_lint_iso3166 (Some 0) (Some 0) (Some 8) (literal_at 0 ''005'') =
     Some (Inr (GS1_LINTER_NOT_ISO3166,
                poke 8 (size_t_bytes 0) (poke 0 (size_t_bytes 0) (literal_at 0 ''005'')))) \<and>
   gs1_lint_iso3166 (Some 0) (Some 16) (Some 8) (literal_at 0 ''005'') =
     Some (Inr (GS1_LINTER_NOT_ISO3166,
                poke 8 (size_t_bytes 3) (poke 16 (size_t_bytes 0) (literal_at 0 ''005'')))) \<and>
   load_size_t (poke 8 (size_t_bytes 0) (poke 0 (size_t_bytes 0) (literal_at 0 ''005''))) 8 = 0 \<and>
   load_size_t (poke 8 (size_t_bytes 3) (poke 16 (size_t_bytes 0) (literal_at 0 ''005''))) 8 = 3 \<and>
   load_size_t (poke 8 (size_t_bytes 0) (poke 0 (size_t_bytes 0) (literal_at 0 ''005''))) 8 \<noteq>
   load_size_t (poke 8 (size_t_bytes 3) (poke 16 (size_t_bytes 0) (literal_at 0 ''005''))) 8"
proof -
  have "load_size_t (poke 8 (size_t_bytes 0)
          (poke 0 (size_t_bytes 0) (literal_at 0 ''005''))) 8 = 0"
    and "load_size_t (poke 8 (size_t_bytes 3)
          (poke 16 (size_t_bytes 0) (literal_at 0 ''005''))) 8 = 3"
    by (simp_all add: load_store_same)
  then show ?thesis
    using literals(3) overlapping_call apart_call by simp
qed

text \<open>
  C8 (determinism and statelessness), amended. For a null-terminated input string \<open>s\<close>
  there is one result code \<open>rc\<close>, fixed by \<open>s\<close> and the table alone, that every call on \<open>s\<close>
  returns, in whatever memory, at whatever address \<open>s\<close> stands and wherever the
  out-parameters point; no call changes a byte outside the objects its out-parameters
  point to; and every call in which no character of \<open>s\<close> lies in the object \<open>err_pos\<close>
  points to leaves the memory as it was when \<open>rc\<close> is \<open>GS1_LINTER_OK\<close>, and otherwise
  stores the same two values, 0 through \<open>err_pos\<close> and the length of \<open>s\<close> through
  \<open>err_len\<close>, through each one that is not \<^verbatim>\<open>NULL\<close>. Nothing else enters the outcome.
\<close>

theorem gs1_lint_iso3166_deterministic:
  "\<exists>rc. \<forall>h d err_pos err_len. c_string_at h d s \<longrightarrow>
     (\<exists>h'. gs1_lint_iso3166 (Some d) err_pos err_len h = Some (Inr (rc, h')) \<and>
        (\<forall>a. (\<forall>p. err_pos = Some p \<longrightarrow> a < p \<or> p + sizeof_size_t \<le> a) \<and>
             (\<forall>l. err_len = Some l \<longrightarrow> a < l \<or> l + sizeof_size_t \<le> a) \<longrightarrow> h' a = h a)) \<and>
     ((\<forall>p. err_pos = Some p \<longrightarrow> s = [] \<or> p + sizeof_size_t \<le> d \<or> d + length s \<le> p) \<longrightarrow>
        gs1_lint_iso3166 (Some d) err_pos err_len h =
          Some (Inr (rc,
            if rc = GS1_LINTER_OK then h
            else (case err_len of None \<Rightarrow> id | Some l \<Rightarrow> poke l (size_t_bytes (length s)))
                   ((case err_pos of None \<Rightarrow> id | Some p \<Rightarrow> poke p (size_t_bytes 0)) h))))"
proof (cases "s \<in> set iso3166")
  case True
  have "gs1_lint_iso3166 (Some d) err_pos err_len h = Some (Inr (GS1_LINTER_OK, h))"
    if "c_string_at h d s" for h d err_pos err_len
    using that True by (rule gs1_lint_iso3166_found)
  then show ?thesis
    by (intro exI [of _ GS1_LINTER_OK]) simp
next
  case False
  have "(\<exists>h'. gs1_lint_iso3166 (Some d) err_pos err_len h =
            Some (Inr (GS1_LINTER_NOT_ISO3166, h')) \<and>
        (\<forall>a. (\<forall>p. err_pos = Some p \<longrightarrow> a < p \<or> p + sizeof_size_t \<le> a) \<and>
             (\<forall>l. err_len = Some l \<longrightarrow> a < l \<or> l + sizeof_size_t \<le> a) \<longrightarrow> h' a = h a)) \<and>
     ((\<forall>p. err_pos = Some p \<longrightarrow> s = [] \<or> p + sizeof_size_t \<le> d \<or> d + length s \<le> p) \<longrightarrow>
        gs1_lint_iso3166 (Some d) err_pos err_len h =
          Some (Inr (GS1_LINTER_NOT_ISO3166,
            (case err_len of None \<Rightarrow> id | Some l \<Rightarrow> poke l (size_t_bytes (length s)))
              ((case err_pos of None \<Rightarrow> id | Some p \<Rightarrow> poke p (size_t_bytes 0)) h))))"
    if at: "c_string_at h d s" for h d err_pos err_len
  proof (intro conjI impI)
    obtain n where "gs1_lint_iso3166 (Some d) err_pos err_len h =
           Some (Inr (GS1_LINTER_NOT_ISO3166,
             (case err_len of None \<Rightarrow> id | Some l \<Rightarrow> poke l (size_t_bytes n))
               ((case err_pos of None \<Rightarrow> id | Some p \<Rightarrow> poke p (size_t_bytes 0)) h)))"
      using gs1_lint_iso3166_missing_returns [OF at False, of err_pos err_len] by blast
    then show "\<exists>h'. gs1_lint_iso3166 (Some d) err_pos err_len h =
            Some (Inr (GS1_LINTER_NOT_ISO3166, h')) \<and>
        (\<forall>a. (\<forall>p. err_pos = Some p \<longrightarrow> a < p \<or> p + sizeof_size_t \<le> a) \<and>
             (\<forall>l. err_len = Some l \<longrightarrow> a < l \<or> l + sizeof_size_t \<le> a) \<longrightarrow> h' a = h a)"
      using stores_frame [of err_pos _ err_len n h] by auto
  next
    assume "\<forall>p. err_pos = Some p \<longrightarrow> s = [] \<or> p + sizeof_size_t \<le> d \<or> d + length s \<le> p"
    then show "gs1_lint_iso3166 (Some d) err_pos err_len h =
          Some (Inr (GS1_LINTER_NOT_ISO3166,
            (case err_len of None \<Rightarrow> id | Some l \<Rightarrow> poke l (size_t_bytes (length s)))
              ((case err_pos of None \<Rightarrow> id | Some p \<Rightarrow> poke p (size_t_bytes 0)) h)))"
      by (rule gs1_lint_iso3166_missing_apart [OF at False])
  qed
  then show ?thesis
    by (intro exI [of _ GS1_LINTER_NOT_ISO3166]) simp
qed

theorem gs1_lint_iso3166_deterministic_witness:
  "c_string_at (literal_at 0 ''005'') 0 ''005'' \<and> c_string_at (literal_at 40 ''005'') 40 ''005'' \<and>
   (\<exists>rc. gs1_lint_iso3166 (Some 0) (Some 8) (Some 16) (literal_at 0 ''005'') =
            Some (Inr (rc, poke 16 (size_t_bytes 3)
                             (poke 8 (size_t_bytes 0) (literal_at 0 ''005'')))) \<and>
          gs1_lint_iso3166 (Some 40) (Some 24) (Some 32) (literal_at 40 ''005'') =
            Some (Inr (rc, poke 32 (size_t_bytes 3)
                             (poke 24 (size_t_bytes 0) (literal_at 40 ''005'')))) \<and>
          rc = GS1_LINTER_NOT_ISO3166)"
proof -
  have lit40: "c_string_at (literal_at 40 ''005'') 40 ''005''"
    by (rule literal_at_c_string) (simp add: NUL_def)
  obtain rc where rc: "\<forall>h d err_pos err_len. c_string_at h d ''005'' \<longrightarrow>
     (\<exists>h'. gs1_lint_iso3166 (Some d) err_pos err_len h = Some (Inr (rc, h')) \<and>
        (\<forall>a. (\<forall>p. err_pos = Some p \<longrightarrow> a < p \<or> p + sizeof_size_t \<le> a) \<and>
             (\<forall>l. err_len = Some l \<longrightarrow> a < l \<or> l + sizeof_size_t \<le> a) \<longrightarrow> h' a = h a)) \<and>
     ((\<forall>p. err_pos = Some p \<longrightarrow> ''005'' = [] \<or> p + sizeof_size_t \<le> d \<or> d + 3 \<le> p) \<longrightarrow>
        gs1_lint_iso3166 (Some d) err_pos err_len h =
          Some (Inr (rc,
            if rc = GS1_LINTER_OK then h
            else (case err_len of None \<Rightarrow> id | Some l \<Rightarrow> poke l (size_t_bytes 3))
                   ((case err_pos of None \<Rightarrow> id | Some p \<Rightarrow> poke p (size_t_bytes 0)) h))))"
    using gs1_lint_iso3166_deterministic [of "''005''", unfolded lengths] by blast
  obtain h' where "gs1_lint_iso3166 (Some 0) (Some 8) (Some 16) (literal_at 0 ''005'') =
      Some (Inr (rc, h'))"
    using rc [rule_format, OF literals(3), THEN conjunct1, of "Some 8" "Some 16"] by blast
  moreover obtain n where "gs1_lint_iso3166 (Some 0) (Some 8) (Some 16) (literal_at 0 ''005'') =
      Some (Inr (GS1_LINTER_NOT_ISO3166,
                 poke 16 (size_t_bytes n) (poke 8 (size_t_bytes 0) (literal_at 0 ''005''))))"
    using gs1_lint_iso3166_missing_returns [OF literals(3) not_rows(4), of "Some 8" "Some 16"]
    by auto
  ultimately have code: "rc = GS1_LINTER_NOT_ISO3166" by simp
  have first: "gs1_lint_iso3166 (Some 0) (Some 8) (Some 16) (literal_at 0 ''005'') =
      Some (Inr (rc, poke 16 (size_t_bytes 3) (poke 8 (size_t_bytes 0) (literal_at 0 ''005''))))"
    using rc [rule_format, OF literals(3), THEN conjunct2, of "Some 8" "Some 16"] code
    by (simp add: sizeof_size_t_def)
  have second: "gs1_lint_iso3166 (Some 40) (Some 24) (Some 32) (literal_at 40 ''005'') =
      Some (Inr (rc, poke 32 (size_t_bytes 3) (poke 24 (size_t_bytes 0) (literal_at 40 ''005''))))"
    using rc [rule_format, OF lit40, THEN conjunct2, of "Some 24" "Some 32"] code
    by (simp add: sizeof_size_t_def)
  show ?thesis
    using literals(3) lit40 first second code by blast
qed

text \<open>
  C9 (optional out-parameters). For a null-terminated input string there is one result
  code that the linter returns whichever of \<open>err_pos\<close> and \<open>err_len\<close> are \<^verbatim>\<open>NULL\<close>; the
  call never ends in a fault, so it stores nothing through \<^verbatim>\<open>NULL\<close>; and every byte
  outside the objects the out-parameters point to holds afterwards what it held before.
\<close>

theorem optional_outputs_safe:
  "\<exists>rc. \<forall>h d err_pos err_len. c_string_at h d s \<longrightarrow>
     (\<exists>h'. gs1_lint_iso3166 (Some d) err_pos err_len h = Some (Inr (rc, h')) \<and>
        (\<forall>a. (\<forall>p. err_pos = Some p \<longrightarrow> a < p \<or> p + sizeof_size_t \<le> a) \<and>
             (\<forall>l. err_len = Some l \<longrightarrow> a < l \<or> l + sizeof_size_t \<le> a) \<longrightarrow> h' a = h a))"
proof (cases "s \<in> set iso3166")
  case True
  have "gs1_lint_iso3166 (Some d) err_pos err_len h = Some (Inr (GS1_LINTER_OK, h))"
    if "c_string_at h d s" for h d err_pos err_len
    using that True by (rule gs1_lint_iso3166_found)
  then show ?thesis
    by (intro exI [of _ GS1_LINTER_OK]) simp
next
  case False
  have "\<exists>h'. gs1_lint_iso3166 (Some d) err_pos err_len h =
            Some (Inr (GS1_LINTER_NOT_ISO3166, h')) \<and>
        (\<forall>a. (\<forall>p. err_pos = Some p \<longrightarrow> a < p \<or> p + sizeof_size_t \<le> a) \<and>
             (\<forall>l. err_len = Some l \<longrightarrow> a < l \<or> l + sizeof_size_t \<le> a) \<longrightarrow> h' a = h a)"
    if at: "c_string_at h d s" for h d err_pos err_len
  proof -
    obtain n where "gs1_lint_iso3166 (Some d) err_pos err_len h =
           Some (Inr (GS1_LINTER_NOT_ISO3166,
             (case err_len of None \<Rightarrow> id | Some l \<Rightarrow> poke l (size_t_bytes n))
               ((case err_pos of None \<Rightarrow> id | Some p \<Rightarrow> poke p (size_t_bytes 0)) h)))"
      using gs1_lint_iso3166_missing_returns [OF at False, of err_pos err_len] by blast
    then show ?thesis
      using stores_frame [of err_pos _ err_len n h] by auto
  qed
  then show ?thesis
    by (intro exI [of _ GS1_LINTER_NOT_ISO3166]) simp
qed

theorem optional_outputs_safe_witness:
  "c_string_at (literal_at 0 ''005'') 0 ''005'' \<and>
   (\<exists>rc. gs1_lint_iso3166 (Some 0) None None (literal_at 0 ''005'') =
            Some (Inr (rc, literal_at 0 ''005'')) \<and>
          (\<exists>h'. gs1_lint_iso3166 (Some 0) (Some 8) None (literal_at 0 ''005'') =
                   Some (Inr (rc, h')) \<and> h' 2 = CHR ''5'' \<and> h' 16 = NUL) \<and>
          (\<exists>h'. gs1_lint_iso3166 (Some 0) None (Some 16) (literal_at 0 ''005'') =
                   Some (Inr (rc, h')) \<and> h' 2 = CHR ''5'' \<and> h' 8 = NUL) \<and>
          (\<exists>h'. gs1_lint_iso3166 (Some 0) (Some 8) (Some 16) (literal_at 0 ''005'') =
                   Some (Inr (rc, h')) \<and> h' 2 = CHR ''5''))"
proof -
  obtain rc where rc: "\<forall>h d err_pos err_len. c_string_at h d ''005'' \<longrightarrow>
     (\<exists>h'. gs1_lint_iso3166 (Some d) err_pos err_len h = Some (Inr (rc, h')) \<and>
        (\<forall>a. (\<forall>p. err_pos = Some p \<longrightarrow> a < p \<or> p + sizeof_size_t \<le> a) \<and>
             (\<forall>l. err_len = Some l \<longrightarrow> a < l \<or> l + sizeof_size_t \<le> a) \<longrightarrow> h' a = h a))"
    using optional_outputs_safe [of "''005''"] by blast
  have bytes: "literal_at 0 ''005'' 2 = CHR ''5''" "literal_at 0 ''005'' 16 = NUL"
    "literal_at 0 ''005'' 8 = NUL"
    by (simp_all add: literal_at_def poke_def)
  obtain h0 where h0: "gs1_lint_iso3166 (Some 0) None None (literal_at 0 ''005'') =
      Some (Inr (rc, h0))" "\<forall>a. h0 a = literal_at 0 ''005'' a"
    using rc [rule_format, OF literals(3), of None None] by auto
  then have "h0 = literal_at 0 ''005''" by (simp add: fun_eq_iff)
  with h0 have none: "gs1_lint_iso3166 (Some 0) None None (literal_at 0 ''005'') =
      Some (Inr (rc, literal_at 0 ''005''))" by simp
  obtain h1 where h1: "gs1_lint_iso3166 (Some 0) (Some 8) None (literal_at 0 ''005'') =
      Some (Inr (rc, h1))" "\<forall>a. (a < 8 \<or> 8 + sizeof_size_t \<le> a) \<longrightarrow> h1 a = literal_at 0 ''005'' a"
    using rc [rule_format, OF literals(3), of "Some 8" None] by auto
  then have pos: "\<exists>h'. gs1_lint_iso3166 (Some 0) (Some 8) None (literal_at 0 ''005'') =
      Some (Inr (rc, h')) \<and> h' 2 = CHR ''5'' \<and> h' 16 = NUL"
    using bytes by (intro exI [of _ h1]) (simp add: sizeof_size_t_def)
  obtain h2 where h2: "gs1_lint_iso3166 (Some 0) None (Some 16) (literal_at 0 ''005'') =
      Some (Inr (rc, h2))"
      "\<forall>a. (a < 16 \<or> 16 + sizeof_size_t \<le> a) \<longrightarrow> h2 a = literal_at 0 ''005'' a"
    using rc [rule_format, OF literals(3), of None "Some 16"] by auto
  then have len: "\<exists>h'. gs1_lint_iso3166 (Some 0) None (Some 16) (literal_at 0 ''005'') =
      Some (Inr (rc, h')) \<and> h' 2 = CHR ''5'' \<and> h' 8 = NUL"
    using bytes by (intro exI [of _ h2]) simp
  obtain h3 where h3: "gs1_lint_iso3166 (Some 0) (Some 8) (Some 16) (literal_at 0 ''005'') =
      Some (Inr (rc, h3))"
      "\<forall>a. (a < 8 \<or> 8 + sizeof_size_t \<le> a) \<and> (a < 16 \<or> 16 + sizeof_size_t \<le> a) \<longrightarrow>
           h3 a = literal_at 0 ''005'' a"
    using rc [rule_format, OF literals(3), of "Some 8" "Some 16"] by auto
  then have both: "\<exists>h'. gs1_lint_iso3166 (Some 0) (Some 8) (Some 16) (literal_at 0 ''005'') =
      Some (Inr (rc, h')) \<and> h' 2 = CHR ''5''"
    using bytes by (intro exI [of _ h3]) simp
  show ?thesis
    using literals(3) none pos len both by blast
qed

text \<open>
  C10 (nothing is written on success). Whenever the linter returns \<open>GS1_LINTER_OK\<close>, the
  memory afterwards is the memory before, also in the objects that non-\<^verbatim>\<open>NULL\<close>
  out-parameters point to.
\<close>

theorem success_writes_nothing:
  "gs1_lint_iso3166 data err_pos err_len h = Some (Inr (GS1_LINTER_OK, h')) \<Longrightarrow> h' = h"
  unfolding gs1_lint_iso3166_def gs1_lint_code_list_def
  by (cases err_pos; cases err_len)
     (auto simp: Let_def split: option.splits if_splits sum.splits)

theorem success_writes_nothing_witness:
  "c_string_at (literal_at 0 ''004'') 0 ''004'' \<and>
   (\<exists>h'. gs1_lint_iso3166 (Some 0) (Some 8) (Some 16) (literal_at 0 ''004'') =
            Some (Inr (GS1_LINTER_OK, h')) \<and>
          h' = literal_at 0 ''004'' \<and> load_size_t h' 8 = 0 \<and> load_size_t h' 16 = 0)"
proof -
  have "''004'' \<in> set iso3166"
    by (simp add: iso3166_def)
  then have "\<exists>h'. gs1_lint_iso3166 (Some 0) (Some 8) (Some 16) (literal_at 0 ''004'') =
      Some (Inr (GS1_LINTER_OK, h'))"
    using gs1_lint_iso3166_found [OF literals(1)] by blast
  then obtain h' where r: "gs1_lint_iso3166 (Some 0) (Some 8) (Some 16) (literal_at 0 ''004'') =
      Some (Inr (GS1_LINTER_OK, h'))" ..
  have h': "h' = literal_at 0 ''004''"
    using r by (rule success_writes_nothing)
  have "map (literal_at 0 ''004'') [8..<8 + sizeof_size_t] = replicate sizeof_size_t NUL"
    by (rule nth_equalityI) (simp_all add: literal_at_def poke_def)
  moreover have "map (literal_at 0 ''004'') [16..<16 + sizeof_size_t] = replicate sizeof_size_t NUL"
    by (rule nth_equalityI) (simp_all add: literal_at_def poke_def)
  moreover have "le_value (replicate n NUL) = 0" for n
    by (induction n) (simp_all add: NUL_def)
  ultimately have "load_size_t (literal_at 0 ''004'') 8 = 0"
    "load_size_t (literal_at 0 ''004'') 16 = 0"
    unfolding load_size_t_def by simp_all
  with r h' literals(1) show ?thesis by simp
qed

end
